theory Spec2Isabelle
  imports Complex_Main "HOL-Library.Multiset"
begin

section \<open>Python values and errors\<close>

text \<open>
  The exceptions the modelled code paths can raise: \<open>range\<close> with a zero step
  (ValueError), a list index out of range (IndexError), a tensor operation on
  incompatible or empty shapes (RuntimeError), a file that cannot be opened (OSError).
\<close>

datatype py_error = ValueError | IndexError | RuntimeError | OSError

text \<open>Python list indexing \<open>xs[i]\<close>: a negative index counts from the end.\<close>

definition py_index :: "'a list \<Rightarrow> int \<Rightarrow> py_error + 'a" where
  "py_index xs i =
     (if 0 \<le> i \<and> i < int (length xs) then Inr (xs ! nat i)
      else if i < 0 \<and> - int (length xs) \<le> i then Inr (xs ! nat (int (length xs) + i))
      else Inl IndexError)"

section \<open>dataloader.py: SequenceDataset.__getitem__\<close>

text \<open>
  An opened hdf5 file holds the three datasets the method reads. The image payload is
  kept abstract; the two label vectors are integer arrays (\<open>np.array(..., dtype=np.int)\<close>).
\<close>

record 'img hdf5_file =
  image :: 'img
  label_base :: "int list"
  label_run_length :: "int list"

text \<open>
  The body of the loop at index \<open>i\<close> (lines 38 to 49): an if/elif chain on
  \<open>label_base[i]\<close> that overwrites the entry in place; no branch fires for any other code.
\<close>

definition remap_at :: "nat \<Rightarrow> int list \<Rightarrow> int list" where
  "remap_at i lb =
     (if lb ! i = 65 then lb[i := 1]
      else if lb ! i = 67 then lb[i := 2]
      else if lb ! i = 71 then lb[i := 3]
      else if lb ! i = 84 then lb[i := 4]
      else if lb ! i = 95 then lb[i := 0]
      else if lb ! i = 78 then lb[i := 0]
      else lb)"

text \<open>\<open>for i in range(len(label_base))\<close>, over the index list.\<close>

fun remap_loop :: "nat list \<Rightarrow> int list \<Rightarrow> int list" where
  "remap_loop [] lb = lb"
| "remap_loop (i # idxs) lb = remap_loop idxs (remap_at i lb)"

text \<open>
  \<open>__getitem__\<close>: \<open>file_info\<close> is the list of paths, \<open>fs\<close> the files that can be
  opened. Returns \<open>(image, label_base, label_run_length)\<close>.
\<close>

definition getitem ::
  "string list \<Rightarrow> (string \<rightharpoonup> 'img hdf5_file) \<Rightarrow> int \<Rightarrow> py_error + ('img \<times> int list \<times> int list)" where
  "getitem file_info fs index =
     (case py_index file_info index of
        Inl e \<Rightarrow> Inl e
      | Inr path \<Rightarrow>
          (case fs path of
             None \<Rightarrow> Inl OSError
           | Some hdf5 \<Rightarrow>
               Inr (image hdf5,
                    remap_loop [0..<length (label_base hdf5)] (label_base hdf5),
                    label_run_length hdf5)))"

section \<open>Python and torch primitives used by predict\_gpu.py\<close>

text \<open>Running a step on a successful result and passing an exception on.\<close>

definition and_then :: "py_error + 'a \<Rightarrow> ('a \<Rightarrow> py_error + 'b) \<Rightarrow> py_error + 'b" where
  "and_then r f = (case r of Inl e \<Rightarrow> Inl e | Inr v \<Rightarrow> f v)"

text \<open>Indexing with a loop counter, which is never negative.\<close>

definition item :: "'a list \<Rightarrow> nat \<Rightarrow> py_error + 'a" where
  "item xs i = (if i < length xs then Inr (xs ! i) else Inl IndexError)"

text \<open>\<open>str\<close> of an integer: decimal digits, most significant first, a minus sign if negative.\<close>

definition digit_char :: "nat \<Rightarrow> char" where
  "digit_char d = ''0123456789'' ! d"

fun str_nat :: "nat \<Rightarrow> string" where
  "str_nat n = (if 10 \<le> n then str_nat (n div 10) @ [digit_char (n mod 10)] else [digit_char n])"

declare str_nat.simps [simp del]

definition str :: "int \<Rightarrow> string" where
  "str i = (if i < 0 then CHR ''-'' # str_nat (nat (- i)) else str_nat (nat i))"

text \<open>\<open>int\<close> of a float: truncation towards zero.\<close>

definition py_int :: "real \<Rightarrow> int" where
  "py_int x = (if x < 0 then \<lceil>x\<rceil> else \<lfloor>x\<rfloor>)"

text \<open>
  \<open>range(0, stop, step)\<close> for sizes: a zero step raises ValueError, otherwise the
  multiples of \<open>step\<close> below \<open>stop\<close>.
\<close>

definition py_range :: "nat \<Rightarrow> nat \<Rightarrow> py_error + nat list" where
  "py_range stop step =
     (if step = 0 then Inl ValueError
      else Inr (map (\<lambda>k. k * step) [0..<(stop + step - 1) div step]))"

text \<open>
  Tensors of rank three are nested lists, outermost axis first: batch, sequence position,
  class. Entries are real numbers: rounding of 32-bit floats is not modelled.
\<close>

type_synonym tensor3 = "real list list list"

definition zeros :: "nat \<Rightarrow> nat \<Rightarrow> nat \<Rightarrow> tensor3" where
  "zeros a b c = replicate a (replicate b (replicate c 0))"

text \<open>\<open>t.size(1)\<close>, read off the first batch entry.\<close>

definition size1 :: "'a list list \<Rightarrow> nat" where
  "size1 t = (case t of [] \<Rightarrow> 0 | inst # _ \<Rightarrow> length inst)"

text \<open>The slice \<open>t[:, a:b]\<close> along the position axis, for \<open>0 \<le> a \<le> b\<close>.\<close>

definition slice1 :: "nat \<Rightarrow> nat \<Rightarrow> 'a list list \<Rightarrow> 'a list list" where
  "slice1 a b t = map (\<lambda>inst. take (b - a) (drop a inst)) t"

text \<open>\<open>nn.Softmax(dim=2)\<close>: each class row is exponentiated and divided by its sum.\<close>

definition softmax_row :: "real list \<Rightarrow> real list" where
  "softmax_row xs = map (\<lambda>x. exp x / sum_list (map exp xs)) xs"

definition Softmax :: "tensor3 \<Rightarrow> tensor3" where
  "Softmax t = map (map softmax_row) t"

text \<open>
  \<open>nn.ZeroPad2d((0, 0, top, bottom))\<close>: no padding on the class axis, \<open>top\<close> rows of
  zeros before and \<open>bottom\<close> rows of zeros after on the position axis.
\<close>

definition pad_rows :: "nat \<Rightarrow> nat \<Rightarrow> real list list \<Rightarrow> real list list" where
  "pad_rows top_pad bottom_pad rows =
     replicate top_pad (replicate (size1 rows) 0) @ rows @
     replicate bottom_pad (replicate (size1 rows) 0)"

definition ZeroPad2d :: "nat \<Rightarrow> nat \<Rightarrow> tensor3 \<Rightarrow> tensor3" where
  "ZeroPad2d top_pad bottom_pad t = map (pad_rows top_pad bottom_pad) t"

text \<open>\<open>nn.Sequential(nn.Softmax(dim=2), nn.ZeroPad2d((0, 0, top_zeros, bottom_zeros)))\<close>.\<close>

definition inference_layers :: "nat \<Rightarrow> nat \<Rightarrow> tensor3 \<Rightarrow> tensor3" where
  "inference_layers top_zeros bottom_zeros t = ZeroPad2d top_zeros bottom_zeros (Softmax t)"

text \<open>
  \<open>torch.add\<close> of two tensors of the same shape, entry by entry; shapes that differ
  raise (broadcasting of axes of size one is not modelled).
\<close>

definition torch_add :: "tensor3 \<Rightarrow> tensor3 \<Rightarrow> py_error + tensor3" where
  "torch_add x y =
     (if map (map length) x = map (map length) y
      then Inr (map2 (map2 (map2 (+))) x y)
      else Inl RuntimeError)"

text \<open>
  \<open>torch.max(t, 2)\<close> on a CPU tensor: for every class row its maximum and the index
  where the maximum occurs first. The scan keeps the best value seen and its index, and
  replaces them only on a strictly greater entry. An empty class axis raises.
\<close>

fun max_scan :: "real list \<Rightarrow> nat \<Rightarrow> real \<times> nat \<Rightarrow> real \<times> nat" where
  "max_scan [] i best = best"
| "max_scan (x # xs) i best = max_scan xs (Suc i) (if fst best < x then (x, i) else best)"

definition max_row :: "real list \<Rightarrow> py_error + (real \<times> nat)" where
  "max_row row = (case row of [] \<Rightarrow> Inl RuntimeError | x # xs \<Rightarrow> Inr (max_scan xs 1 (x, 0)))"

fun collect :: "(py_error + 'a) list \<Rightarrow> py_error + 'a list" where
  "collect [] = Inr []"
| "collect (r # rs) = and_then r (\<lambda>v. and_then (collect rs) (\<lambda>vs. Inr (v # vs)))"

definition torch_max :: "tensor3 \<Rightarrow> py_error + (real list list \<times> nat list list)" where
  "torch_max t =
     and_then (collect (map (\<lambda>inst. collect (map max_row inst)) t))
       (\<lambda>res. Inr (map (map fst) res, map (map snd) res))"

section \<open>predict\_gpu.py: configuration, inputs and state\<close>

text \<open>
  The size constants of \<open>ImageSizeOptions\<close> and \<open>TrainOptions\<close> and the escape
  sequences of \<open>TextColor\<close> are defined outside the files at hand; they are parameters.
\<close>

record options =
  SEQ_LENGTH :: nat
  TRAIN_WINDOW :: nat
  WINDOW_JUMP :: nat
  GRU_LAYERS :: nat
  HIDDEN_SIZE :: nat
  TOTAL_BASE_LABELS :: nat
  TOTAL_RLE_LABELS :: nat
  GREEN :: string
  PURPLE :: string
  END :: string

text \<open>
  The transducer model is a parameter: a function from an image chunk and a hidden state
  to base logits, run-length logits and the next hidden state, or an exception.
\<close>

type_synonym 'x transducer = "'x list list \<Rightarrow> tensor3 \<Rightarrow> py_error + (tensor3 \<times> tensor3 \<times> tensor3)"

text \<open>
  One minibatch as the loader yields it, together with the two clock readings
  \<open>time.time()\<close> returns while the batch is processed (line 95 and line 165).
\<close>

record 'x batch =
  contig :: "string list"
  contig_start :: "int list"
  contig_end :: "int list"
  chunk_id :: "int list"
  images :: "'x list list"
  position :: "int list list"
  filename :: "string list"
  clock_start :: real
  clock_report :: real

text \<open>The arguments of one \<open>write_prediction\<close> call, and the file they are written to.\<close>

record prediction_row =
  row_contig :: string
  row_contig_start :: int
  row_contig_end :: int
  row_chunk_id :: int
  row_position :: "int list"
  row_base_labels :: "nat list"
  row_rle_labels :: "nat list"
  row_filename :: string

record data_store =
  store_path :: string
  store_rows :: "prediction_row list"

text \<open>
  One call of the model, as the window loop makes it: the window start, the hidden state
  passed in, and the three results. The list of calls of the current batch is kept in the
  state for observation only; nothing reads it.
\<close>

record invocation =
  inv_start :: nat
  inv_hidden_in :: tensor3
  inv_output_base :: tensor3
  inv_output_rle :: tensor3
  inv_hidden_out :: tensor3

record pstate =
  prediction_data_file :: data_store
  cuda_device :: int
  stdout :: "string list"
  stderr :: "string list"
  batch_iterator :: nat
  hidden :: tensor3
  prediction_base_tensor :: tensor3
  prediction_rle_tensor :: tensor3
  invocations :: "invocation list"

section \<open>predict\_gpu.py: the sliding window loop\<close>

text \<open>
  Lines 114 to 117: \<open>for i in range(0, SEQ_LENGTH, WINDOW_JUMP)\<close> with the \<open>break\<close> as
  soon as \<open>i + TRAIN_WINDOW > SEQ_LENGTH\<close>; \<open>body\<close> is the rest of the loop body.
\<close>

fun for_windows ::
  "nat \<Rightarrow> nat \<Rightarrow> (nat \<Rightarrow> 's \<Rightarrow> py_error + 's) \<Rightarrow> nat list \<Rightarrow> 's \<Rightarrow> py_error + 's" where
  "for_windows L W body [] st = Inr st"
| "for_windows L W body (i # rest) st =
     (if i + W > L then Inr st
      else and_then (body i st) (for_windows L W body rest))"

definition sliding_windows ::
  "nat \<Rightarrow> nat \<Rightarrow> nat \<Rightarrow> (nat \<Rightarrow> 's \<Rightarrow> py_error + 's) \<Rightarrow> 's \<Rightarrow> py_error + 's" where
  "sliding_windows L W J body st =
     and_then (py_range L J) (\<lambda>starts. for_windows L W body starts st)"

text \<open>
  For comparison: \<open>body\<close> run on every element of a list in turn, with no \<open>break\<close>,
  stopping at the first exception.
\<close>

fun run_all :: "(nat \<Rightarrow> 's \<Rightarrow> py_error + 's) \<Rightarrow> nat list \<Rightarrow> 's \<Rightarrow> py_error + 's" where
  "run_all body [] st = Inr st"
| "run_all body (i # rest) st = and_then (body i st) (run_all body rest)"

text \<open>The window starts the loop reaches its body with, in the order it reaches them.\<close>

definition window_starts :: "nat \<Rightarrow> nat \<Rightarrow> nat \<Rightarrow> py_error + nat list" where
  "window_starts L W J = sliding_windows L W J (\<lambda>i seen. Inr (seen @ [i])) []"

text \<open>
  Lines 118 to 149, the body for the window starting at \<open>i\<close>. It runs only under the
  guard \<open>i + TRAIN_WINDOW \<le> SEQ_LENGTH\<close>, so \<open>bottom_zeros\<close> is not negative.
\<close>

definition window_body ::
  "options \<Rightarrow> 'x transducer \<Rightarrow> 'x list list \<Rightarrow> nat \<Rightarrow> pstate \<Rightarrow> py_error + pstate" where
  "window_body opts transducer_model imgs i st =
     (let chunk_start = i;
          chunk_end = i + TRAIN_WINDOW opts;
          image_chunk = slice1 chunk_start chunk_end imgs
      in and_then (transducer_model image_chunk (hidden st))
           (\<lambda>(output_base, output_rle, hidden').
              let top_zeros = chunk_start;
                  bottom_zeros = SEQ_LENGTH opts - chunk_end;
                  base_prediction = inference_layers top_zeros bottom_zeros output_base;
                  rle_prediction = inference_layers top_zeros bottom_zeros output_rle
              in and_then (torch_add (prediction_base_tensor st) base_prediction)
                   (\<lambda>new_base.
                      and_then (torch_add (prediction_rle_tensor st) rle_prediction)
                        (\<lambda>new_rle.
                           Inr (st\<lparr>hidden := hidden',
                                   prediction_base_tensor := new_base,
                                   prediction_rle_tensor := new_rle,
                                   invocations := invocations st @
                                     [\<lparr>inv_start = chunk_start, inv_hidden_in = hidden st,
                                       inv_output_base = output_base,
                                       inv_output_rle = output_rle,
                                       inv_hidden_out = hidden'\<rparr>]\<rparr>)))))"

section \<open>predict\_gpu.py: one batch\<close>

text \<open>Lines 165 to 170: the three numbers of the time stamp.\<close>

definition eta_parts :: "real \<Rightarrow> int \<times> int \<times> int" where
  "eta_parts eta0 =
     (let hours = py_int (eta0 / 3600);
          eta = eta0 - (eta0 / 3600);
          mins = py_int (eta / 60);
          secs = py_int eta mod 60
      in (hours, mins, secs))"

definition progress_line :: "options \<Rightarrow> real \<Rightarrow> nat \<Rightarrow> nat \<Rightarrow> string" where
  "progress_line opts eta0 iterator total_batches =
     (case eta_parts eta0 of (hours, mins, secs) \<Rightarrow>
        let time_stamp = str hours @ '' HOURS '' @ str mins @ '' MINS '' @ str secs @ '' SECS.'';
            batch_string = ''BATCHES DONE: '' @ str (int iterator) @ ''/'' @
                           str (int total_batches) @ ''. '';
            time_left = ''ESTIMATED TIME LEFT: '' @ time_stamp
        in GREEN opts @ ''INFO: '' @ batch_string @ time_left @ [CHR 0x0A] @ END opts)"

text \<open>Lines 176 to 179: one row per image of the batch.\<close>

fun write_predictions ::
  "'x batch \<Rightarrow> nat list list \<Rightarrow> nat list list \<Rightarrow> nat list \<Rightarrow> data_store \<Rightarrow> py_error + data_store" where
  "write_predictions b base_labels rle_labels [] data_file = Inr data_file"
| "write_predictions b base_labels rle_labels (i # rest) data_file =
     and_then (item (contig b) i) (\<lambda>c.
     and_then (item (contig_start b) i) (\<lambda>cs.
     and_then (item (contig_end b) i) (\<lambda>ce.
     and_then (item (chunk_id b) i) (\<lambda>ch.
     and_then (item (position b) i) (\<lambda>pos.
     and_then (item base_labels i) (\<lambda>bl.
     and_then (item rle_labels i) (\<lambda>rl.
     and_then (item (filename b) i) (\<lambda>fn.
       write_predictions b base_labels rle_labels rest
         (data_file\<lparr>store_rows := store_rows data_file @
                       [\<lparr>row_contig = c, row_contig_start = cs, row_contig_end = ce,
                         row_chunk_id = ch, row_position = pos, row_base_labels = bl,
                         row_rle_labels = rl, row_filename = fn\<rparr>]\<rparr>)))))))))"

text \<open>
  Lines 97 to 110, the start of a batch: the hidden state and the two prediction tensors
  are set to zeros of the sizes of the batch at hand.
\<close>

definition batch_start :: "options \<Rightarrow> 'x list list \<Rightarrow> pstate \<Rightarrow> pstate" where
  "batch_start opts imgs st =
     st\<lparr>hidden := zeros (length imgs) (2 * GRU_LAYERS opts) (HIDDEN_SIZE opts),
        prediction_base_tensor := zeros (length imgs) (size1 imgs) (TOTAL_BASE_LABELS opts),
        prediction_rle_tensor := zeros (length imgs) (size1 imgs) (TOTAL_RLE_LABELS opts),
        invocations := []\<rparr>"

text \<open>Lines 163 to 173: the progress line, written by the caller of rank 0 only.\<close>

definition report_progress :: "options \<Rightarrow> int \<Rightarrow> nat \<Rightarrow> 'x batch \<Rightarrow> pstate \<Rightarrow> pstate" where
  "report_progress opts rank total_batches b st =
     (if rank = 0
      then st\<lparr>stderr := stderr st @
                [progress_line opts
                   ((clock_report b - clock_start b) *
                      of_int (int total_batches - int (batch_iterator st)))
                   (batch_iterator st) total_batches]\<rparr>
      else st)"

text \<open>
  Lines 95 to 179: the body of the loop over the minibatches. Converting the images to
  floats and moving tensors between devices and to numpy changes no value and is left out.
\<close>

definition process_batch ::
  "options \<Rightarrow> 'x transducer \<Rightarrow> int \<Rightarrow> nat \<Rightarrow> 'x batch \<Rightarrow> pstate \<Rightarrow> py_error + pstate" where
  "process_batch opts transducer_model rank total_batches b st =
     and_then (sliding_windows (SEQ_LENGTH opts) (TRAIN_WINDOW opts) (WINDOW_JUMP opts)
                 (window_body opts transducer_model (images b)) (batch_start opts (images b) st))
       (\<lambda>st1.
          and_then (torch_max (prediction_base_tensor st1)) (\<lambda>(base_values, base_labels).
          and_then (torch_max (prediction_rle_tensor st1)) (\<lambda>(rle_values, rle_labels).
            let st2 = report_progress opts rank total_batches b
                        (st1\<lparr>batch_iterator := batch_iterator st1 + 1\<rparr>)
            in and_then (write_predictions b base_labels rle_labels [0..<length (images b)]
                           (prediction_data_file st2))
                 (\<lambda>data_file. Inr (st2\<lparr>prediction_data_file := data_file\<rparr>)))))"

section \<open>predict\_gpu.py: predict, the worker entry point and predict\_gpu\<close>

fun for_batches ::
  "options \<Rightarrow> 'x transducer \<Rightarrow> int \<Rightarrow> nat \<Rightarrow> 'x batch list \<Rightarrow> pstate \<Rightarrow> py_error + pstate" where
  "for_batches opts transducer_model rank total_batches [] st = Inr st"
| "for_batches opts transducer_model rank total_batches (b # bs) st =
     and_then (process_batch opts transducer_model rank total_batches b st)
       (for_batches opts transducer_model rank total_batches bs)"

text \<open>
  \<open>predict\<close>. The checkpoint loader, the data loader and the thread count torch reports
  are outside the files at hand and are parameters: \<open>load_simple_model\<close> maps the model
  path to the model, \<open>test_loader\<close> maps the input file, the batch size and the number of
  loader workers to the list of minibatches. The local variables of the batch loop are
  unbound before the first batch; the initial state holds empty tensors for them.
\<close>

definition predict ::
  "options \<Rightarrow> int \<Rightarrow> (string \<Rightarrow> 'x transducer) \<Rightarrow> ('f \<Rightarrow> nat \<Rightarrow> nat \<Rightarrow> 'x batch list) \<Rightarrow>
   'f \<Rightarrow> string \<Rightarrow> string \<Rightarrow> nat \<Rightarrow> nat \<Rightarrow> int \<Rightarrow> int \<Rightarrow> py_error + pstate" where
  "predict opts num_threads load_simple_model test_loader
           test_file output_filename model_path batch_size num_workers rank device_id =
     (let data_file =
            \<lparr>store_path = output_filename @ ''_'' @ str rank @ ''.hdf'', store_rows = []\<rparr>;
          transducer_model = load_simple_model model_path;
          st = \<lparr>prediction_data_file = data_file,
                cuda_device = device_id,
                stdout = (if rank = 0 then [output_filename @ ''_'' @ str rank @ ''.hdf''] else []),
                stderr = (if rank = 0
                          then [GREEN opts @ ''INFO: TORCH THREADS SET TO: '' @ str num_threads @
                                  [CHR ''.'', CHR 0x0A] @ END opts,
                                PURPLE opts @ ''Loading data'' @ [CHR 0x0A] @ END opts]
                          else []),
                batch_iterator = 0,
                hidden = [], prediction_base_tensor = [], prediction_rle_tensor = [],
                invocations = []\<rparr>;
          batches = test_loader test_file batch_size num_workers;
          total_batches = length batches
      in for_batches opts transducer_model rank total_batches batches st)"

text \<open>
  The function \<open>setup\<close> of the source, the entry point of the worker of rank
  \<open>rank\<close> (named \<open>setup_worker\<close> here, the plain name being reserved). Joining and
  leaving the process group exchanges no data and is left out.
\<close>

definition setup_worker ::
  "options \<Rightarrow> int \<Rightarrow> (string \<Rightarrow> 'x transducer) \<Rightarrow> ('f \<Rightarrow> nat \<Rightarrow> nat \<Rightarrow> 'x batch list) \<Rightarrow>
   nat \<Rightarrow> nat \<Rightarrow> string \<times> string \<times> nat \<times> nat \<Rightarrow> 'f list \<Rightarrow> int list \<Rightarrow> py_error + pstate" where
  "setup_worker opts num_threads load_simple_model test_loader
         rank total_callers args all_input_files all_devices =
     (case args of (output_filepath, model_path, batch_size, num_workers) \<Rightarrow>
        and_then (item all_input_files rank) (\<lambda>test_file.
        and_then (item all_devices rank) (\<lambda>device_id.
          predict opts num_threads load_simple_model test_loader
                  test_file output_filepath model_path batch_size num_workers (int rank) device_id)))"

text \<open>
  \<open>predict_gpu\<close>: \<open>mp.spawn\<close> starts \<open>total_callers\<close> processes and passes each its
  index as the first argument of \<open>setup\<close>. The processes share nothing; the result is the
  list of what each of them returns.
\<close>

definition predict_gpu ::
  "options \<Rightarrow> int \<Rightarrow> (string \<Rightarrow> 'x transducer) \<Rightarrow> ('f \<Rightarrow> nat \<Rightarrow> nat \<Rightarrow> 'x batch list) \<Rightarrow>
   'f list \<Rightarrow> string \<Rightarrow> string \<Rightarrow> nat \<Rightarrow> nat \<Rightarrow> int list \<Rightarrow> nat \<Rightarrow> (py_error + pstate) list" where
  "predict_gpu opts num_threads load_simple_model test_loader
               file_chunks output_filepath model_path batch_size total_callers devices num_workers =
     (let args = (output_filepath, model_path, batch_size, num_workers)
      in map (\<lambda>rank. setup_worker opts num_threads load_simple_model test_loader
                        rank total_callers args file_chunks devices)
             [0..<total_callers])"

section \<open>Notions used to state the properties\<close>

text \<open>A tensor with \<open>B\<close> batch entries, \<open>N\<close> positions in each and \<open>C\<close> classes in each position.\<close>

definition has_shape :: "nat \<Rightarrow> nat \<Rightarrow> nat \<Rightarrow> tensor3 \<Rightarrow> bool" where
  "has_shape B N C t \<longleftrightarrow>
     length t = B \<and> (\<forall>inst \<in> set t. length inst = N \<and> (\<forall>row \<in> set inst. length row = C))"

text \<open>
  Lines 133 to 149 for one head: the logits of the window starting at \<open>s\<close> are passed
  through the softmax and padding layers and added to the running evidence.
\<close>

definition fuse :: "nat \<Rightarrow> nat \<Rightarrow> nat \<times> tensor3 \<Rightarrow> tensor3 \<Rightarrow> py_error + tensor3" where
  "fuse L W w ev = torch_add ev (inference_layers (fst w) (L - (fst w + W)) (snd w))"

text \<open>Fusing a list of windows, each given by its start and its logits, one after another.\<close>

fun fuse_all :: "nat \<Rightarrow> nat \<Rightarrow> (nat \<times> tensor3) list \<Rightarrow> tensor3 \<Rightarrow> py_error + tensor3" where
  "fuse_all L W [] ev = Inr ev"
| "fuse_all L W (w # ws) ev = and_then (fuse L W w ev) (fuse_all L W ws)"

text \<open>
  What fusing one window means for one head, position by position: the class scores of
  every window position sum to one; the padded tensor is \<open>L\<close> long, carries the scores of
  window position \<open>p - s\<close> at position \<open>p\<close> of the window and zeros elsewhere; the new
  evidence is the old evidence plus the padded tensor, entry by entry.
\<close>

definition fused_window :: "nat \<Rightarrow> nat \<Rightarrow> nat \<Rightarrow> tensor3 \<Rightarrow> tensor3 \<Rightarrow> tensor3 \<Rightarrow> bool" where
  "fused_window L W s logits ev ev' \<longleftrightarrow>
     (let probs = Softmax logits;
          padded = ZeroPad2d s (L - (s + W)) probs
      in length logits = length ev \<and>
         (\<forall>b < length ev.
            length (logits ! b) = W \<and>
            (\<forall>q < W. sum_list (probs ! b ! q) = 1) \<and>
            length (padded ! b) = L \<and>
            (\<forall>p < L. padded ! b ! p =
                        (if s \<le> p \<and> p < s + W then probs ! b ! (p - s)
                         else replicate (length (ev ! b ! p)) 0)) \<and>
            (\<forall>p < L. \<forall>c < length (ev ! b ! p).
               ev' ! b ! p ! c = ev ! b ! p ! c + padded ! b ! p ! c)))"

text \<open>
  A list of model calls is threaded from the hidden state \<open>h\<close>: the first call receives
  \<open>h\<close>, every call is the model applied to the slice of its window and to the hidden
  state it received, and the next call receives the hidden state this one returned.
\<close>

fun threaded :: "'x transducer \<Rightarrow> 'x list list \<Rightarrow> nat \<Rightarrow> tensor3 \<Rightarrow> invocation list \<Rightarrow> bool" where
  "threaded m imgs W h [] = True"
| "threaded m imgs W h (v # vs) =
     (inv_hidden_in v = h \<and>
      m (slice1 (inv_start v) (inv_start v + W) imgs) h =
        Inr (inv_output_base v, inv_output_rle v, inv_hidden_out v) \<and>
      threaded m imgs W (inv_hidden_out v) vs)"

text \<open>
  A model is well shaped for batches of \<open>B\<close> instances when, on every chunk of \<open>B\<close>
  instances of one window each, it returns logits of one window for each instance, with
  the configured numbers of classes.
\<close>

definition well_shaped :: "options \<Rightarrow> nat \<Rightarrow> 'x transducer \<Rightarrow> bool" where
  "well_shaped opts B m \<longleftrightarrow>
     (\<forall>chunk h.
        length chunk = B \<and> (\<forall>inst \<in> set chunk. length inst = TRAIN_WINDOW opts) \<longrightarrow>
        (\<exists>ob orl h'. m chunk h = Inr (ob, orl, h') \<and>
           has_shape B (TRAIN_WINDOW opts) (TOTAL_BASE_LABELS opts) ob \<and>
           has_shape B (TRAIN_WINDOW opts) (TOTAL_RLE_LABELS opts) orl))"

text \<open>The windows of a list of model calls, with the logits of one head.\<close>

definition base_windows :: "invocation list \<Rightarrow> (nat \<times> tensor3) list" where
  "base_windows vs = map (\<lambda>v. (inv_start v, inv_output_base v)) vs"

definition rle_windows :: "invocation list \<Rightarrow> (nat \<times> tensor3) list" where
  "rle_windows vs = map (\<lambda>v. (inv_start v, inv_output_rle v)) vs"

text \<open>The windows of a list of model calls that cover position \<open>p\<close>.\<close>

definition covering :: "nat \<Rightarrow> nat \<Rightarrow> invocation list \<Rightarrow> invocation list" where
  "covering W p vs = filter (\<lambda>v. inv_start v \<le> p \<and> p < inv_start v + W) vs"

section \<open>A small configuration to run the definitions on\<close>

text \<open>
  Sequences of six positions, windows of four positions, a jump of two, two base classes
  and three run-length classes. The model looks at one feature per position: its base
  logits favour class 0 three to one where the feature is 0 and class 1 three to one
  elsewhere, its run-length logits are all equal, and it adds one to every entry of the
  hidden state.
\<close>

definition demo_opts :: options where
  "demo_opts =
     \<lparr>SEQ_LENGTH = 6, TRAIN_WINDOW = 4, WINDOW_JUMP = 2, GRU_LAYERS = 1, HIDDEN_SIZE = 1,
      TOTAL_BASE_LABELS = 2, TOTAL_RLE_LABELS = 3, GREEN = [], PURPLE = [], END = []\<rparr>"

definition demo_model :: "nat transducer" where
  "demo_model image_chunk h =
     Inr (map (map (\<lambda>x. if x = 0 then [ln 3, 0] else [0, ln 3])) image_chunk,
          map (map (\<lambda>x. [0, 0, 0])) image_chunk,
          map (map (map (\<lambda>y. y + 1))) h)"

definition demo_batch :: "nat batch" where
  "demo_batch =
     \<lparr>contig = [''contig_1''], contig_start = [0], contig_end = [6], chunk_id = [0],
      images = [[0, 1, 1, 0, 1, 0]], position = [[0, 1, 2, 3, 4, 5]],
      filename = [''img_0.h5''], clock_start = 10, clock_report = 12\<rparr>"

definition demo_state :: pstate where
  "demo_state =
     \<lparr>prediction_data_file = \<lparr>store_path = ''out_0.hdf'', store_rows = []\<rparr>,
      cuda_device = 0, stdout = [], stderr = [], batch_iterator = 0,
      hidden = [], prediction_base_tensor = [], prediction_rle_tensor = [],
      invocations = []\<rparr>"

text \<open>The state the batch of the small configuration ends in, computed by hand.\<close>

definition demo_result :: pstate where
  "demo_result =
     \<lparr>prediction_data_file =
        \<lparr>store_path = ''out_0.hdf'',
         store_rows =
           [\<lparr>row_contig = ''contig_1'', row_contig_start = 0, row_contig_end = 6,
             row_chunk_id = 0, row_position = [0, 1, 2, 3, 4, 5],
             row_base_labels = [0, 1, 1, 0, 1, 0], row_rle_labels = [0, 0, 0, 0, 0, 0],
             row_filename = ''img_0.h5''\<rparr>]\<rparr>,
      cuda_device = 0, stdout = [], stderr = [], batch_iterator = 1,
      hidden = [[[2], [2]]],
      prediction_base_tensor =
        [[[3 / 4, 1 / 4], [1 / 4, 3 / 4], [1 / 2, 3 / 2], [3 / 2, 1 / 2], [1 / 4, 3 / 4],
          [3 / 4, 1 / 4]]],
      prediction_rle_tensor =
        [[[1 / 3, 1 / 3, 1 / 3], [1 / 3, 1 / 3, 1 / 3], [2 / 3, 2 / 3, 2 / 3],
          [2 / 3, 2 / 3, 2 / 3], [1 / 3, 1 / 3, 1 / 3], [1 / 3, 1 / 3, 1 / 3]]],
      invocations =
        [\<lparr>inv_start = 0, inv_hidden_in = [[[0], [0]]],
          inv_output_base = [[[ln 3, 0], [0, ln 3], [0, ln 3], [ln 3, 0]]],
          inv_output_rle = [[[0, 0, 0], [0, 0, 0], [0, 0, 0], [0, 0, 0]]],
          inv_hidden_out = [[[1], [1]]]\<rparr>,
         \<lparr>inv_start = 2, inv_hidden_in = [[[1], [1]]],
          inv_output_base = [[[0, ln 3], [ln 3, 0], [0, ln 3], [ln 3, 0]]],
          inv_output_rle = [[[0, 0, 0], [0, 0, 0], [0, 0, 0], [0, 0, 0]]],
          inv_hidden_out = [[[2], [2]]]\<rparr>]\<rparr>"

text \<open>The state at the start of that batch and the state after its first window.\<close>

definition demo_start :: pstate where
  "demo_start =
     demo_state\<lparr>hidden := zeros 1 2 1, prediction_base_tensor := zeros 1 6 2,
                 prediction_rle_tensor := zeros 1 6 3\<rparr>"

definition demo_first :: pstate where
  "demo_first =
     demo_state
       \<lparr>hidden := [[[1], [1]]],
        prediction_base_tensor :=
          [[[3 / 4, 1 / 4], [1 / 4, 3 / 4], [1 / 4, 3 / 4], [3 / 4, 1 / 4], [0, 0], [0, 0]]],
        prediction_rle_tensor :=
          [[[1 / 3, 1 / 3, 1 / 3], [1 / 3, 1 / 3, 1 / 3], [1 / 3, 1 / 3, 1 / 3],
            [1 / 3, 1 / 3, 1 / 3], [0, 0, 0], [0, 0, 0]]],
        invocations :=
          [\<lparr>inv_start = 0, inv_hidden_in = [[[0], [0]]],
            inv_output_base = [[[ln 3, 0], [0, ln 3], [0, ln 3], [ln 3, 0]]],
            inv_output_rle = [[[0, 0, 0], [0, 0, 0], [0, 0, 0], [0, 0, 0]]],
            inv_hidden_out = [[[1], [1]]]\<rparr>]\<rparr>"

text \<open>
  The same configuration with sequences of seven positions: the windows start at 0 and
  2 as before, and position 6 is covered by none.
\<close>

definition long_opts :: options where
  "long_opts = demo_opts\<lparr>SEQ_LENGTH := 7\<rparr>"

definition long_batch :: "nat batch" where
  "long_batch =
     demo_batch\<lparr>contig_end := [7], images := [[0, 1, 1, 0, 1, 0, 1]],
                 position := [[0, 1, 2, 3, 4, 5, 6]]\<rparr>"

definition long_result :: pstate where
  "long_result =
     \<lparr>prediction_data_file =
        \<lparr>store_path = ''out_0.hdf'',
         store_rows =
           [\<lparr>row_contig = ''contig_1'', row_contig_start = 0, row_contig_end = 7,
             row_chunk_id = 0, row_position = [0, 1, 2, 3, 4, 5, 6],
             row_base_labels = [0, 1, 1, 0, 1, 0, 0], row_rle_labels = [0, 0, 0, 0, 0, 0, 0],
             row_filename = ''img_0.h5''\<rparr>]\<rparr>,
      cuda_device = 0, stdout = [], stderr = [], batch_iterator = 1,
      hidden = [[[2], [2]]],
      prediction_base_tensor =
        [[[3 / 4, 1 / 4], [1 / 4, 3 / 4], [1 / 2, 3 / 2], [3 / 2, 1 / 2], [1 / 4, 3 / 4],
          [3 / 4, 1 / 4], [0, 0]]],
      prediction_rle_tensor =
        [[[1 / 3, 1 / 3, 1 / 3], [1 / 3, 1 / 3, 1 / 3], [2 / 3, 2 / 3, 2 / 3],
          [2 / 3, 2 / 3, 2 / 3], [1 / 3, 1 / 3, 1 / 3], [1 / 3, 1 / 3, 1 / 3], [0, 0, 0]]],
      invocations =
        [\<lparr>inv_start = 0, inv_hidden_in = [[[0], [0]]],
          inv_output_base = [[[ln 3, 0], [0, ln 3], [0, ln 3], [ln 3, 0]]],
          inv_output_rle = [[[0, 0, 0], [0, 0, 0], [0, 0, 0], [0, 0, 0]]],
          inv_hidden_out = [[[1], [1]]]\<rparr>,
         \<lparr>inv_start = 2, inv_hidden_in = [[[1], [1]]],
          inv_output_base = [[[0, ln 3], [ln 3, 0], [0, ln 3], [ln 3, 0]]],
          inv_output_rle = [[[0, 0, 0], [0, 0, 0], [0, 0, 0], [0, 0, 0]]],
          inv_hidden_out = [[[2], [2]]]\<rparr>]\<rparr>"

text \<open>An evidence tensor with a tie, and two windows of two positions with their logits.\<close>

definition tied_evidence :: tensor3 where
  "tied_evidence = [[[1 / 2, 3 / 2, 3 / 2], [0, 0, 0]]]"

definition window_a :: "nat \<times> tensor3" where
  "window_a = (0, [[[ln 3, 0], [0, 0]]])"

definition window_b :: "nat \<times> tensor3" where
  "window_b = (1, [[[0, 0], [0, ln 3]]])"

section \<open>Properties of the window loop\<close>

lemma and_then_Inr [simp]: "and_then (Inr v) f = f v"
  by (simp add: and_then_def)

lemma and_then_Inl [simp]: "and_then (Inl e) f = Inl e"
  by (simp add: and_then_def)

lemma and_then_return [simp]: "and_then r Inr = r"
  by (cases r) simp_all

lemma and_then_assoc:
  "and_then (and_then r f) g = and_then r (\<lambda>v. and_then (f v) g)"
  by (cases r) simp_all

lemma and_then_eq_Inr:
  "and_then r f = Inr y \<longleftrightarrow> (\<exists>v. r = Inr v \<and> f v = Inr y)"
  by (cases r) simp_all

lemma and_then_InrE:
  assumes "and_then r f = Inr y"
  obtains v where "r = Inr v" and "f v = Inr y"
  using assms by (auto simp: and_then_eq_Inr)

lemma for_windows_append:
  "\<forall>i \<in> set xs. i + W \<le> L \<Longrightarrow>
   for_windows L W body (xs @ ys) st = and_then (run_all body xs st) (for_windows L W body ys)"
proof (induction xs arbitrary: st)
  case Nil
  show ?case by simp
next
  case (Cons i xs)
  then have "for_windows L W body (xs @ ys) =
      (\<lambda>st'. and_then (run_all body xs st') (for_windows L W body ys))" by auto
  with Cons.prems show ?case by (simp add: and_then_assoc)
qed

lemma for_windows_break:
  "ys = [] \<or> hd ys + W > L \<Longrightarrow> for_windows L W body ys st = Inr st"
  by (cases ys) auto

lemma last_window_fits:
  fixes L W J :: nat
  assumes "0 < J" "W \<le> L"
  shows "k * J + W \<le> L \<longleftrightarrow> k \<le> (L - W) div J"
proof -
  have "k * J + W \<le> L \<longleftrightarrow> k * J \<le> L - W" using assms by arith
  also have "\<dots> \<longleftrightarrow> k \<le> (L - W) div J"
    using assms(1) by (simp add: less_eq_div_iff_mult_less_eq)
  finally show ?thesis .
qed

lemma windows_within_range:
  fixes L W J :: nat
  assumes "0 < J" "J \<le> W" "W \<le> L"
  shows "Suc ((L - W) div J) \<le> (L + J - 1) div J"
proof -
  have "(L - W) div J * J \<le> L - W" by simp
  moreover have "Suc ((L - W) div J) * J = (L - W) div J * J + J" by simp
  ultimately have "Suc ((L - W) div J) * J \<le> L + J - 1" using assms by linarith
  with assms(1) show ?thesis by (simp add: less_eq_div_iff_mult_less_eq)
qed

lemma sliding_windows_run_all:
  assumes "0 < J" "J \<le> W" "W \<le> L"
  shows "sliding_windows L W J body st =
           run_all body (map (\<lambda>k. k * J) [0..<Suc ((L - W) div J)]) st"
proof -
  define m n where "m = Suc ((L - W) div J)" and "n = (L + J - 1) div J"
  have mn: "m \<le> n" unfolding m_def n_def using assms by (rule windows_within_range)
  then have split: "[0..<n] = [0..<m] @ [m..<n]"
    by (metis le0 upt_add_eq_append le_add_diff_inverse)
  have fits: "\<forall>i \<in> set (map (\<lambda>k. k * J) [0..<m]). i + W \<le> L"
    using last_window_fits [OF assms(1,3)] by (auto simp: m_def)
  have stop: "map (\<lambda>k. k * J) [m..<n] = [] \<or> hd (map (\<lambda>k. k * J) [m..<n]) + W > L"
  proof (cases "m < n")
    case True
    then have "hd (map (\<lambda>k. k * J) [m..<n]) = m * J" by (simp add: upt_conv_Cons)
    moreover have "\<not> m * J + W \<le> L"
      using last_window_fits [OF assms(1,3), of m] by (simp add: m_def)
    ultimately show ?thesis by simp
  next
    case False
    then show ?thesis by simp
  qed
  have "sliding_windows L W J body st =
          for_windows L W body (map (\<lambda>k. k * J) [0..<m] @ map (\<lambda>k. k * J) [m..<n]) st"
    using assms(1) split by (simp add: sliding_windows_def py_range_def n_def flip: map_append)
  also have "\<dots> = run_all body (map (\<lambda>k. k * J) [0..<m]) st"
  proof -
    have "for_windows L W body (map (\<lambda>k. k * J) [m..<n]) = Inr"
      by (rule ext) (rule for_windows_break [OF stop])
    then show ?thesis by (simp add: for_windows_append [OF fits])
  qed
  finally show ?thesis by (simp only: m_def)
qed

lemma run_all_record:
  "run_all (\<lambda>i seen. Inr (seen @ [i])) xs acc = Inr (acc @ xs)"
  by (induction xs arbitrary: acc) simp_all

text \<open>
  C1, for a jump of at least one. With \<open>1 \<le> J \<le> W \<le> L\<close> the window loop runs its
  body exactly on the start offsets \<open>0, J, 2J, \<dots>, k * J\<close>, in this order, where
  \<open>k = (L - W) div J\<close> is the largest \<open>k\<close> with \<open>k * J + W \<le> L\<close>; no window that would
  end past \<open>L\<close> is evaluated.
\<close>

theorem sliding_window_schedule:
  assumes "0 < J" "J \<le> W" "W \<le> L"
  shows "sliding_windows L W J body st =
           run_all body (map (\<lambda>k. k * J) [0..<Suc ((L - W) div J)]) st \<and>
         window_starts L W J = Inr (map (\<lambda>k. k * J) [0..<Suc ((L - W) div J)]) \<and>
         (\<forall>k. k * J + W \<le> L \<longleftrightarrow> k \<le> (L - W) div J)"
  using assms
  by (simp add: sliding_windows_run_all window_starts_def run_all_record last_window_fits)

theorem sliding_window_schedule_witness:
  "window_starts 1000 100 50 =
     Inr [0, 50, 100, 150, 200, 250, 300, 350, 400, 450, 500, 550, 600, 650, 700, 750, 800,
          850, 900] \<and>
   length [0, 50, 100, 150, 200, 250, 300, 350, 400, 450, 500, 550, 600, 650, 700, 750, 800,
          850, 900 :: nat] = 19 \<and>
   (\<forall>k. k * 50 + 100 \<le> (1000::nat) \<longleftrightarrow> k \<le> 18)"
  using sliding_window_schedule [of 50 100 1000 "\<lambda>i (u::unit). Inr u" "()"]
  by (simp add: upt_conv_Cons)

text \<open>
  C1, at a jump of zero. \<open>J \<le> W \<le> L\<close> holds for \<open>J = 0\<close>, \<open>W = L = 1\<close> and the
  window at offset 0 fits, but \<open>range(0, 1, 0)\<close> raises before any window is evaluated.
\<close>

theorem window_starts_zero_jump: "window_starts 1 1 0 = Inl ValueError"
  by (simp add: window_starts_def sliding_windows_def py_range_def and_then_def)

section \<open>Properties of the tensor operations\<close>

lemma torch_add_Inr:
  "torch_add x y = Inr z \<longleftrightarrow>
     map (map length) x = map (map length) y \<and> z = map2 (map2 (map2 (+))) x y"
  by (auto simp: torch_add_def)

lemma same_shape_nth:
  assumes "map (map length) x = map (map length) y"
  shows "length x = length y"
    and "b < length x \<Longrightarrow> length (x ! b) = length (y ! b)"
    and "b < length x \<Longrightarrow> p < length (x ! b) \<Longrightarrow> length (x ! b ! p) = length (y ! b ! p)"
proof -
  show len: "length x = length y" using assms by (rule map_eq_imp_length_eq)
  { assume b: "b < length x"
    have "map (map length) x ! b = map (map length) y ! b" using assms by simp
    with b len have row: "map length (x ! b) = map length (y ! b)" by simp
    then show "length (x ! b) = length (y ! b)" by (rule map_eq_imp_length_eq)
    { assume p: "p < length (x ! b)"
      have "map length (x ! b) ! p = map length (y ! b) ! p" using row by simp
      with p \<open>length (x ! b) = length (y ! b)\<close>
      show "length (x ! b ! p) = length (y ! b ! p)" by simp } }
qed

lemma torch_add_nth:
  assumes "torch_add x y = Inr z" "b < length x" "p < length (x ! b)" "c < length (x ! b ! p)"
  shows "z ! b ! p ! c = x ! b ! p ! c + y ! b ! p ! c"
proof -
  from assms(1) have sh: "map (map length) x = map (map length) y"
    and z: "z = map2 (map2 (map2 (+))) x y" by (simp_all add: torch_add_Inr)
  note l = same_shape_nth [OF sh]
  from assms(2-4) l show ?thesis unfolding z by simp
qed

lemma torch_add_shape:
  assumes "torch_add x y = Inr z"
  shows "map (map length) z = map (map length) x"
proof -
  from assms(1) have sh: "map (map length) x = map (map length) y"
    and z: "z = map2 (map2 (map2 (+))) x y" by (simp_all add: torch_add_Inr)
  note l = same_shape_nth [OF sh]
  show ?thesis unfolding z
    by (rule nth_equalityI, simp add: l(1), rule nth_equalityI) (simp_all add: l)
qed

lemma pad_rows_length: "length (pad_rows t b rows) = t + length rows + b"
  by (simp add: pad_rows_def)

lemma pad_rows_nth:
  "pad_rows t b rows ! p =
     (if t \<le> p \<and> p < t + length rows then rows ! (p - t)
      else if p < t + length rows + b then replicate (size1 rows) 0
      else pad_rows t b rows ! p)"
  by (auto simp: pad_rows_def nth_append)

lemma inference_layers_length: "length (inference_layers t bz ob) = length ob"
  by (simp add: inference_layers_def ZeroPad2d_def Softmax_def)

lemma inference_layers_nth:
  "b < length ob \<Longrightarrow>
   inference_layers t bz ob ! b = pad_rows t bz (map softmax_row (ob ! b))"
  by (simp add: inference_layers_def ZeroPad2d_def Softmax_def)

lemma sum_list_exp_pos:
  fixes row :: "real list"
  assumes "row \<noteq> []"
  shows "0 < sum_list (map exp row)"
proof -
  from assms obtain x xs where row: "row = x # xs" by (cases row) auto
  have "0 \<le> sum_list (map exp xs)" by (rule sum_list_nonneg) auto
  moreover have "0 < exp x" by simp
  ultimately have "0 < exp x + sum_list (map exp xs)" by (rule add_pos_nonneg [rotated])
  then show ?thesis unfolding row by simp
qed

lemma sum_list_map_divide:
  fixes d :: real
  shows "sum_list (map (\<lambda>x. f x / d) xs) = sum_list (map f xs) / d"
  by (induction xs) (simp_all add: add_divide_distrib)

lemma softmax_row_sum:
  assumes "row \<noteq> []"
  shows "sum_list (softmax_row row) = 1"
proof -
  have "sum_list (softmax_row row) = sum_list (map exp row) / sum_list (map exp row)"
    unfolding softmax_row_def by (rule sum_list_map_divide)
  with sum_list_exp_pos [OF assms] show ?thesis by simp
qed

lemma has_shape_nth:
  assumes "has_shape B N C t"
  shows "length t = B"
    and "b < B \<Longrightarrow> length (t ! b) = N"
    and "b < B \<Longrightarrow> p < N \<Longrightarrow> length (t ! b ! p) = C"
proof -
  from assms show "length t = B" by (simp add: has_shape_def)
  { assume b: "b < B"
    with assms have in_t: "t ! b \<in> set t" by (simp add: has_shape_def)
    with assms show "length (t ! b) = N" by (simp add: has_shape_def)
    { assume "p < N"
      with \<open>length (t ! b) = N\<close> have "t ! b ! p \<in> set (t ! b)" by simp
      with assms in_t show "length (t ! b ! p) = C" by (simp add: has_shape_def) } }
qed

lemma length_softmax_row [simp]: "length (softmax_row row) = length row"
  by (simp add: softmax_row_def)

lemma fuse_fused_window:
  assumes fu: "fuse L W (s, logits) ev = Inr ev'"
    and fit: "s + W \<le> L"
    and shape: "has_shape B L C ev"
    and C: "0 < C"
  shows "fused_window L W s logits ev ev'"
proof -
  define bz where "bz = L - (s + W)"
  define padded where "padded = inference_layers s bz logits"
  from fu have add: "torch_add ev padded = Inr ev'"
    by (simp add: fuse_def padded_def bz_def)
  then have sh: "map (map length) ev = map (map length) padded"
    by (simp add: torch_add_Inr)
  note l = same_shape_nth [OF sh]
  note hs = has_shape_nth [OF shape]
  have len: "length logits = length ev"
    using l(1) by (simp add: padded_def inference_layers_length)
  have per_instance:
    "length (logits ! b) = W \<and>
     (\<forall>q < W. sum_list (Softmax logits ! b ! q) = 1) \<and>
     length (padded ! b) = L \<and>
     (\<forall>p < L. padded ! b ! p =
                 (if s \<le> p \<and> p < s + W then Softmax logits ! b ! (p - s)
                  else replicate (length (ev ! b ! p)) 0)) \<and>
     (\<forall>p < L. \<forall>c < length (ev ! b ! p).
        ev' ! b ! p ! c = ev ! b ! p ! c + padded ! b ! p ! c)"
    if b: "b < length ev" for b
  proof -
    from b hs have bB: "b < B" by simp
    have bl: "b < length logits" using b len by simp
    have pb: "padded ! b = pad_rows s bz (map softmax_row (logits ! b))"
      using bl by (simp add: padded_def inference_layers_nth)
    have lenpb: "length (padded ! b) = L" using l(2) [OF b] hs(2) [OF bB] by simp
    then have "s + length (logits ! b) + bz = L" by (simp add: pb pad_rows_length)
    with fit have W: "length (logits ! b) = W" by (simp add: bz_def)
    have sm: "Softmax logits ! b ! q = softmax_row (logits ! b ! q)" if "q < W" for q
      using that bl W by (simp add: Softmax_def)
    have rowlen: "length (padded ! b ! p) = length (ev ! b ! p)" if "p < L" for p
      using l(3) [OF b, of p] that hs(2) [OF bB] by simp
    have rows: "padded ! b ! p =
                 (if s \<le> p \<and> p < s + W then Softmax logits ! b ! (p - s)
                  else replicate (length (ev ! b ! p)) 0)" if p: "p < L" for p
    proof (cases "s \<le> p \<and> p < s + W")
      case True
      then have "p - s < W" by arith
      with True W show ?thesis by (simp add: pb pad_rows_nth sm)
    next
      case False
      have "p < s + length (map softmax_row (logits ! b)) + bz"
        using p lenpb by (simp add: pb pad_rows_length)
      with False W have eq: "padded ! b ! p = replicate (size1 (map softmax_row (logits ! b))) 0"
        by (auto simp: pb pad_rows_nth)
      with rowlen [OF p] have "size1 (map softmax_row (logits ! b)) = length (ev ! b ! p)"
        by simp
      with eq have "padded ! b ! p = replicate (length (ev ! b ! p)) 0" by simp
      with False show ?thesis by (simp only: if_False)
    qed
    have sums: "sum_list (Softmax logits ! b ! q) = 1" if q: "q < W" for q
    proof -
      from q fit have p: "s + q < L" by arith
      from rows [OF p] q have "padded ! b ! (s + q) = softmax_row (logits ! b ! q)"
        by (simp add: sm)
      with rowlen [OF p] hs(3) [OF bB p] have "length (logits ! b ! q) = C" by simp
      with C have "logits ! b ! q \<noteq> []" by auto
      then show ?thesis by (simp add: sm [OF q] softmax_row_sum)
    qed
    have adds: "ev' ! b ! p ! c = ev ! b ! p ! c + padded ! b ! p ! c"
      if "p < L" "c < length (ev ! b ! p)" for p c
      using torch_add_nth [OF add b _ that(2)] that(1) hs(2) [OF bB] by simp
    from W sums lenpb rows adds show ?thesis by blast
  qed
  show ?thesis
    unfolding fused_window_def Let_def
    using len per_instance
    by (simp add: padded_def inference_layers_def bz_def)
qed

lemma window_body_Inr:
  assumes "window_body opts m imgs s st = Inr st'"
  shows "\<exists>ob orl h'.
           m (slice1 s (s + TRAIN_WINDOW opts) imgs) (hidden st) = Inr (ob, orl, h') \<and>
           fuse (SEQ_LENGTH opts) (TRAIN_WINDOW opts) (s, ob) (prediction_base_tensor st)
             = Inr (prediction_base_tensor st') \<and>
           fuse (SEQ_LENGTH opts) (TRAIN_WINDOW opts) (s, orl) (prediction_rle_tensor st)
             = Inr (prediction_rle_tensor st') \<and>
           st' = st\<lparr>hidden := h',
                    prediction_base_tensor := prediction_base_tensor st',
                    prediction_rle_tensor := prediction_rle_tensor st',
                    invocations := invocations st @
                      [\<lparr>inv_start = s, inv_hidden_in = hidden st, inv_output_base = ob,
                        inv_output_rle = orl, inv_hidden_out = h'\<rparr>]\<rparr>"
  using assms
  by (auto simp: window_body_def Let_def and_then_eq_Inr fuse_def)

lemma has_shape_iff:
  "has_shape B N C t \<longleftrightarrow> map (map length) t = replicate B (replicate N C)"
proof
  assume h: "has_shape B N C t"
  show "map (map length) t = replicate B (replicate N C)"
  proof (rule replicate_eqI)
    show "length (map (map length) t) = B" using h by (simp add: has_shape_def)
    fix y assume "y \<in> set (map (map length) t)"
    then obtain inst where inst: "inst \<in> set t" and y: "y = map length inst" by auto
    from h inst have "length inst = N" and "\<forall>row \<in> set inst. length row = C"
      by (simp_all add: has_shape_def)
    then show "y = replicate N C" unfolding y by (intro replicate_eqI) auto
  qed
next
  assume eq: "map (map length) t = replicate B (replicate N C)"
  then have len: "length t = B" by (metis length_map length_replicate)
  have "length inst = N \<and> (\<forall>row \<in> set inst. length row = C)" if "inst \<in> set t" for inst
  proof -
    from that have "map length inst \<in> set (map (map length) t)" by simp
    with eq have r: "map length inst = replicate N C" by auto
    then have "length inst = N" by (metis length_map length_replicate)
    moreover have "length row = C" if "row \<in> set inst" for row
    proof -
      from that have "length row \<in> set (map length inst)" by simp
      with r show ?thesis by auto
    qed
    ultimately show ?thesis by simp
  qed
  with len show "has_shape B N C t" by (simp add: has_shape_def)
qed

lemma has_shape_zeros: "has_shape B N C (zeros B N C)"
  by (simp add: has_shape_iff zeros_def)

lemma zeros_nth: "b < B \<Longrightarrow> p < N \<Longrightarrow> c < C \<Longrightarrow> zeros B N C ! b ! p ! c = 0"
  by (simp add: zeros_def)

lemma fuse_has_shape:
  assumes "fuse L W w ev = Inr ev'" "has_shape B N C ev"
  shows "has_shape B N C ev'"
  using assms torch_add_shape [of ev _ ev']
  by (simp add: fuse_def has_shape_iff)

lemma fuse_all_has_shape:
  "fuse_all L W ws ev = Inr ev' \<Longrightarrow> has_shape B N C ev \<Longrightarrow> has_shape B N C ev'"
proof (induction ws arbitrary: ev)
  case Nil
  then show ?case by simp
next
  case (Cons w ws)
  from Cons.prems(1) obtain ev1 where
    one: "fuse L W w ev = Inr ev1" and rest: "fuse_all L W ws ev1 = Inr ev'"
    by (auto simp: and_then_eq_Inr)
  from fuse_has_shape [OF one Cons.prems(2)] have "has_shape B N C ev1" .
  with rest show ?case by (rule Cons.IH)
qed

lemma fuse_nth:
  assumes fu: "fuse L W w ev = Inr ev'"
    and fit: "fst w + W \<le> L"
    and shape: "has_shape B L C ev"
    and idx: "b < B" "p < L" "c < C"
  shows "ev' ! b ! p ! c =
           ev ! b ! p ! c +
           (if fst w \<le> p \<and> p < fst w + W then Softmax (snd w) ! b ! (p - fst w) ! c else 0)"
proof -
  from idx have C: "0 < C" by simp
  from fu have "fuse L W (fst w, snd w) ev = Inr ev'" by simp
  from fuse_fused_window [OF this fit shape C]
  have fw: "fused_window L W (fst w) (snd w) ev ev'" .
  note hs = has_shape_nth [OF shape]
  from idx hs have b: "b < length ev" and cl: "c < length (ev ! b ! p)" by simp_all
  define padded where "padded = ZeroPad2d (fst w) (L - (fst w + W)) (Softmax (snd w))"
  from fw b idx(2) cl have
    row: "padded ! b ! p =
           (if fst w \<le> p \<and> p < fst w + W then Softmax (snd w) ! b ! (p - fst w)
            else replicate (length (ev ! b ! p)) 0)" and
    add: "ev' ! b ! p ! c = ev ! b ! p ! c + padded ! b ! p ! c"
    by (simp_all add: fused_window_def Let_def padded_def)
  from row cl have "padded ! b ! p ! c =
      (if fst w \<le> p \<and> p < fst w + W then Softmax (snd w) ! b ! (p - fst w) ! c else 0)"
    by simp
  with add show ?thesis by simp
qed

lemma fuse_all_nth:
  assumes "fuse_all L W ws ev = Inr ev'"
    and "\<forall>w \<in> set ws. fst w + W \<le> L"
    and "has_shape B L C ev"
    and "b < B" "p < L" "c < C"
  shows "ev' ! b ! p ! c =
           ev ! b ! p ! c +
           sum_list (map (\<lambda>w. Softmax (snd w) ! b ! (p - fst w) ! c)
                       (filter (\<lambda>w. fst w \<le> p \<and> p < fst w + W) ws))"
  using assms(1-3)
proof (induction ws arbitrary: ev)
  case Nil
  then show ?case by simp
next
  case (Cons w ws)
  from Cons.prems(1) obtain ev1 where
    one: "fuse L W w ev = Inr ev1" and rest: "fuse_all L W ws ev1 = Inr ev'"
    by (auto simp: and_then_eq_Inr)
  from Cons.prems(2) have fit: "fst w + W \<le> L" and fits: "\<forall>w \<in> set ws. fst w + W \<le> L"
    by simp_all
  have sh1: "has_shape B L C ev1" using one Cons.prems(3) by (rule fuse_has_shape)
  note step = fuse_nth [OF one fit Cons.prems(3) assms(4-6)]
  note ih = Cons.IH [OF rest fits sh1]
  show ?case unfolding ih step by simp
qed

lemma for_windows_record:
  "for_windows L W (\<lambda>i seen. Inr (seen @ [i])) xs acc =
     Inr (acc @ takeWhile (\<lambda>i. i + W \<le> L) xs)"
  by (induction xs arbitrary: acc) (simp_all add: not_less)

section \<open>The window loop of a batch\<close>

lemma for_windows_body_trace:
  assumes "for_windows (SEQ_LENGTH opts) (TRAIN_WINDOW opts) (window_body opts m imgs) xs st = Inr st'"
  shows "\<exists>new. invocations st' = invocations st @ new \<and>
           map inv_start new = takeWhile (\<lambda>i. i + TRAIN_WINDOW opts \<le> SEQ_LENGTH opts) xs \<and>
           threaded m imgs (TRAIN_WINDOW opts) (hidden st) new \<and>
           hidden st' = (if new = [] then hidden st else inv_hidden_out (last new)) \<and>
           fuse_all (SEQ_LENGTH opts) (TRAIN_WINDOW opts) (base_windows new)
             (prediction_base_tensor st) = Inr (prediction_base_tensor st') \<and>
           fuse_all (SEQ_LENGTH opts) (TRAIN_WINDOW opts) (rle_windows new)
             (prediction_rle_tensor st) = Inr (prediction_rle_tensor st')"
  using assms
proof (induction xs arbitrary: st)
  case Nil
  then show ?case by (simp add: base_windows_def rle_windows_def)
next
  case (Cons i xs)
  show ?case
  proof (cases "i + TRAIN_WINDOW opts > SEQ_LENGTH opts")
    case True
    with Cons.prems show ?thesis by (simp add: base_windows_def rle_windows_def)
  next
    case False
    with Cons.prems obtain st1 where
      body: "window_body opts m imgs i st = Inr st1" and
      rest: "for_windows (SEQ_LENGTH opts) (TRAIN_WINDOW opts) (window_body opts m imgs) xs st1 = Inr st'"
      by (auto simp: and_then_eq_Inr)
    from window_body_Inr [OF body] obtain ob orl h' where
      call: "m (slice1 i (i + TRAIN_WINDOW opts) imgs) (hidden st) = Inr (ob, orl, h')" and
      fb: "fuse (SEQ_LENGTH opts) (TRAIN_WINDOW opts) (i, ob) (prediction_base_tensor st)
             = Inr (prediction_base_tensor st1)" and
      fr: "fuse (SEQ_LENGTH opts) (TRAIN_WINDOW opts) (i, orl) (prediction_rle_tensor st)
             = Inr (prediction_rle_tensor st1)" and
      st1: "st1 = st\<lparr>hidden := h',
                    prediction_base_tensor := prediction_base_tensor st1,
                    prediction_rle_tensor := prediction_rle_tensor st1,
                    invocations := invocations st @
                      [\<lparr>inv_start = i, inv_hidden_in = hidden st, inv_output_base = ob,
                        inv_output_rle = orl, inv_hidden_out = h'\<rparr>]\<rparr>"
      by blast
    define v where "v = \<lparr>inv_start = i, inv_hidden_in = hidden st, inv_output_base = ob,
                        inv_output_rle = orl, inv_hidden_out = h'\<rparr>"
    have h1: "hidden st1 = h'" and i1: "invocations st1 = invocations st @ [v]"
      by (subst st1, simp add: v_def)+
    from Cons.IH [OF rest] obtain new where
      n1: "invocations st' = invocations st1 @ new" and
      n2: "map inv_start new = takeWhile (\<lambda>i. i + TRAIN_WINDOW opts \<le> SEQ_LENGTH opts) xs" and
      n3: "threaded m imgs (TRAIN_WINDOW opts) (hidden st1) new" and
      n4: "hidden st' = (if new = [] then hidden st1 else inv_hidden_out (last new))" and
      n5: "fuse_all (SEQ_LENGTH opts) (TRAIN_WINDOW opts) (base_windows new)
             (prediction_base_tensor st1) = Inr (prediction_base_tensor st')" and
      n6: "fuse_all (SEQ_LENGTH opts) (TRAIN_WINDOW opts) (rle_windows new)
             (prediction_rle_tensor st1) = Inr (prediction_rle_tensor st')"
      by blast
    have "invocations st' = invocations st @ (v # new)" using n1 i1 by simp
    moreover have "map inv_start (v # new) =
        takeWhile (\<lambda>i. i + TRAIN_WINDOW opts \<le> SEQ_LENGTH opts) (i # xs)"
      using n2 False by (simp add: v_def)
    moreover have "threaded m imgs (TRAIN_WINDOW opts) (hidden st) (v # new)"
      using n3 call h1 by (simp add: v_def)
    moreover have "hidden st' = (if v # new = [] then hidden st else inv_hidden_out (last (v # new)))"
      using n4 h1 by (simp add: v_def)
    moreover have "fuse_all (SEQ_LENGTH opts) (TRAIN_WINDOW opts) (base_windows (v # new))
             (prediction_base_tensor st) = Inr (prediction_base_tensor st')"
      using n5 fb by (simp add: base_windows_def v_def)
    moreover have "fuse_all (SEQ_LENGTH opts) (TRAIN_WINDOW opts) (rle_windows (v # new))
             (prediction_rle_tensor st) = Inr (prediction_rle_tensor st')"
      using n6 fr by (simp add: rle_windows_def v_def)
    ultimately show ?thesis by blast
  qed
qed

lemma window_body_frame:
  assumes "window_body opts m imgs s st = Inr st'"
  shows "prediction_data_file st' = prediction_data_file st \<and> cuda_device st' = cuda_device st \<and>
         stdout st' = stdout st \<and> stderr st' = stderr st \<and> batch_iterator st' = batch_iterator st"
  using window_body_Inr [OF assms] by (elim exE conjE) (erule ssubst, simp)

lemma for_windows_frame:
  assumes "for_windows L W (window_body opts m imgs) xs st = Inr st'"
  shows "prediction_data_file st' = prediction_data_file st \<and> cuda_device st' = cuda_device st \<and>
         stdout st' = stdout st \<and> stderr st' = stderr st \<and> batch_iterator st' = batch_iterator st"
  using assms
proof (induction xs arbitrary: st)
  case Nil
  then show ?case by simp
next
  case (Cons i xs)
  show ?case
  proof (cases "i + W > L")
    case True
    with Cons.prems show ?thesis by simp
  next
    case False
    with Cons.prems obtain st1 where
      body: "window_body opts m imgs i st = Inr st1" and
      rest: "for_windows L W (window_body opts m imgs) xs st1 = Inr st'"
      by (auto simp: and_then_eq_Inr)
    from Cons.IH [OF rest] window_body_frame [OF body] show ?thesis by simp
  qed
qed

section \<open>Running the small configuration\<close>

lemmas demo_defs = demo_opts_def demo_model_def demo_batch_def demo_state_def

lemma replicate_numeral: "replicate (numeral k) x = x # replicate (pred_numeral k) x"
  by (simp add: numeral_eq_Suc)

lemma demo_run: "process_batch demo_opts demo_model 1 1 demo_batch demo_state = Inr demo_result"
  by (simp add: process_batch_def demo_defs sliding_windows_def py_range_def batch_start_def
      zeros_def size1_def upt_conv_Cons window_body_def slice1_def Let_def
      inference_layers_def ZeroPad2d_def Softmax_def softmax_row_def pad_rows_def torch_add_def
      torch_max_def max_row_def report_progress_def
      item_def replicate_numeral demo_result_def)

lemmas run_defs = process_batch_def sliding_windows_def py_range_def batch_start_def
  zeros_def size1_def upt_conv_Cons window_body_def slice1_def Let_def
  inference_layers_def ZeroPad2d_def Softmax_def softmax_row_def pad_rows_def torch_add_def
  torch_max_def max_row_def report_progress_def item_def replicate_numeral

lemma demo_first_window:
  "window_body demo_opts demo_model (images demo_batch) 0 demo_start = Inr demo_first"
  by (simp add: demo_defs demo_start_def demo_first_def run_defs)

lemma long_run: "process_batch long_opts demo_model 1 1 long_batch demo_state = Inr long_result"
  by (simp add: demo_defs long_opts_def long_batch_def long_result_def run_defs)

section \<open>One batch\<close>

lemma process_batch_Inr:
  assumes "process_batch opts m rank total_batches b st = Inr st'"
  obtains starts st1 base_values base_labels rle_values rle_labels data_file where
    "py_range (SEQ_LENGTH opts) (WINDOW_JUMP opts) = Inr starts"
    "for_windows (SEQ_LENGTH opts) (TRAIN_WINDOW opts) (window_body opts m (images b)) starts
       (batch_start opts (images b) st) = Inr st1"
    "torch_max (prediction_base_tensor st1) = Inr (base_values, base_labels)"
    "torch_max (prediction_rle_tensor st1) = Inr (rle_values, rle_labels)"
    "write_predictions b base_labels rle_labels [0..<length (images b)]
       (prediction_data_file st1) = Inr data_file"
    "st' = (report_progress opts rank total_batches b
             (st1\<lparr>batch_iterator := batch_iterator st1 + 1\<rparr>))\<lparr>prediction_data_file := data_file\<rparr>"
proof -
  from assms obtain st1 bres rres data_file where
    sw: "sliding_windows (SEQ_LENGTH opts) (TRAIN_WINDOW opts) (WINDOW_JUMP opts)
           (window_body opts m (images b)) (batch_start opts (images b) st) = Inr st1" and
    tb: "torch_max (prediction_base_tensor st1) = Inr bres" and
    tr: "torch_max (prediction_rle_tensor st1) = Inr rres" and
    wr: "write_predictions b (snd bres) (snd rres) [0..<length (images b)]
           (prediction_data_file (report_progress opts rank total_batches b
             (st1\<lparr>batch_iterator := batch_iterator st1 + 1\<rparr>))) = Inr data_file" and
    fin: "st' = (report_progress opts rank total_batches b
             (st1\<lparr>batch_iterator := batch_iterator st1 + 1\<rparr>))\<lparr>prediction_data_file := data_file\<rparr>"
    unfolding process_batch_def Let_def
    by (auto simp: and_then_eq_Inr split: prod.splits)
  from sw obtain starts where
    rg: "py_range (SEQ_LENGTH opts) (WINDOW_JUMP opts) = Inr starts" and
    fw: "for_windows (SEQ_LENGTH opts) (TRAIN_WINDOW opts) (window_body opts m (images b)) starts
           (batch_start opts (images b) st) = Inr st1"
    unfolding sliding_windows_def by (rule and_then_InrE)
  have pf: "prediction_data_file (report_progress opts rank total_batches b
             (st1\<lparr>batch_iterator := batch_iterator st1 + 1\<rparr>)) = prediction_data_file st1"
    by (simp add: report_progress_def)
  show ?thesis
    by (rule that [OF rg fw _ _ _ fin, of "fst bres" "snd bres" "fst rres" "snd rres"])
       (simp_all add: tb tr wr [unfolded pf])
qed

lemma window_starts_eq:
  "py_range L J = Inr starts \<Longrightarrow>
   window_starts L W J = Inr (takeWhile (\<lambda>i. i + W \<le> L) starts)"
  by (simp add: window_starts_def sliding_windows_def for_windows_record)

lemma py_range_sorted:
  assumes "py_range L J = Inr starts"
  shows "sorted_wrt (<) starts"
proof -
  from assms have J: "0 < J" and s: "starts = map (\<lambda>k. k * J) [0..<(L + J - 1) div J]"
    by (auto simp: py_range_def split: if_splits)
  show ?thesis unfolding s using J by (simp add: sorted_wrt_iff_nth_less)
qed

lemma sorted_wrt_takeWhile: "sorted_wrt P xs \<Longrightarrow> sorted_wrt P (takeWhile Q xs)"
  by (subst takeWhile_eq_take) (rule sorted_wrt_take)

lemma report_progress_frame:
  "prediction_base_tensor (report_progress opts rank n b st) = prediction_base_tensor st"
  "prediction_rle_tensor (report_progress opts rank n b st) = prediction_rle_tensor st"
  "invocations (report_progress opts rank n b st) = invocations st"
  "hidden (report_progress opts rank n b st) = hidden st"
  "prediction_data_file (report_progress opts rank n b st) = prediction_data_file st"
  "batch_iterator (report_progress opts rank n b st) = batch_iterator st"
  "cuda_device (report_progress opts rank n b st) = cuda_device st"
  "stdout (report_progress opts rank n b st) = stdout st"
  by (simp_all add: report_progress_def)

lemma process_batch_trace:
  assumes run: "process_batch opts m rank total_batches b st = Inr st'"
  shows "window_starts (SEQ_LENGTH opts) (TRAIN_WINDOW opts) (WINDOW_JUMP opts)
           = Inr (map inv_start (invocations st'))"
    and "sorted_wrt (<) (map inv_start (invocations st'))"
    and "\<forall>v \<in> set (invocations st'). inv_start v + TRAIN_WINDOW opts \<le> SEQ_LENGTH opts"
    and "threaded m (images b) (TRAIN_WINDOW opts)
           (zeros (length (images b)) (2 * GRU_LAYERS opts) (HIDDEN_SIZE opts)) (invocations st')"
    and "fuse_all (SEQ_LENGTH opts) (TRAIN_WINDOW opts) (base_windows (invocations st'))
           (zeros (length (images b)) (size1 (images b)) (TOTAL_BASE_LABELS opts))
           = Inr (prediction_base_tensor st')"
    and "fuse_all (SEQ_LENGTH opts) (TRAIN_WINDOW opts) (rle_windows (invocations st'))
           (zeros (length (images b)) (size1 (images b)) (TOTAL_RLE_LABELS opts))
           = Inr (prediction_rle_tensor st')"
proof -
  from run obtain starts st1 base_values base_labels rle_values rle_labels data_file where
    rg: "py_range (SEQ_LENGTH opts) (WINDOW_JUMP opts) = Inr starts" and
    fw: "for_windows (SEQ_LENGTH opts) (TRAIN_WINDOW opts) (window_body opts m (images b)) starts
       (batch_start opts (images b) st) = Inr st1" and
    "torch_max (prediction_base_tensor st1) = Inr (base_values, base_labels)" and
    "torch_max (prediction_rle_tensor st1) = Inr (rle_values, rle_labels)" and
    fin: "st' = (report_progress opts rank total_batches b
             (st1\<lparr>batch_iterator := batch_iterator st1 + 1\<rparr>))\<lparr>prediction_data_file := data_file\<rparr>"
    by (rule process_batch_Inr)
  from for_windows_body_trace [OF fw] obtain new where
    n1: "invocations st1 = invocations (batch_start opts (images b) st) @ new" and
    n2: "map inv_start new = takeWhile (\<lambda>i. i + TRAIN_WINDOW opts \<le> SEQ_LENGTH opts) starts" and
    n3: "threaded m (images b) (TRAIN_WINDOW opts) (hidden (batch_start opts (images b) st)) new" and
    n5: "fuse_all (SEQ_LENGTH opts) (TRAIN_WINDOW opts) (base_windows new)
             (prediction_base_tensor (batch_start opts (images b) st)) = Inr (prediction_base_tensor st1)" and
    n6: "fuse_all (SEQ_LENGTH opts) (TRAIN_WINDOW opts) (rle_windows new)
             (prediction_rle_tensor (batch_start opts (images b) st)) = Inr (prediction_rle_tensor st1)"
    by blast
  have inv: "invocations st' = new" using n1 fin
    by (simp add: report_progress_frame batch_start_def)
  have pb: "prediction_base_tensor st' = prediction_base_tensor st1"
    and pr: "prediction_rle_tensor st' = prediction_rle_tensor st1"
    using fin by (simp_all add: report_progress_frame)
  show "window_starts (SEQ_LENGTH opts) (TRAIN_WINDOW opts) (WINDOW_JUMP opts)
           = Inr (map inv_start (invocations st'))"
    using window_starts_eq [OF rg] n2 inv by simp
  show "sorted_wrt (<) (map inv_start (invocations st'))"
    unfolding inv n2 using py_range_sorted [OF rg] by (rule sorted_wrt_takeWhile)
  show "\<forall>v \<in> set (invocations st'). inv_start v + TRAIN_WINDOW opts \<le> SEQ_LENGTH opts"
  proof
    fix v assume "v \<in> set (invocations st')"
    then have "inv_start v \<in> set (map inv_start new)" using inv by simp
    then show "inv_start v + TRAIN_WINDOW opts \<le> SEQ_LENGTH opts"
      unfolding n2 by (rule set_takeWhileD [THEN conjunct2])
  qed
  show "threaded m (images b) (TRAIN_WINDOW opts)
           (zeros (length (images b)) (2 * GRU_LAYERS opts) (HIDDEN_SIZE opts)) (invocations st')"
    using n3 inv by (simp add: batch_start_def)
  show "fuse_all (SEQ_LENGTH opts) (TRAIN_WINDOW opts) (base_windows (invocations st'))
           (zeros (length (images b)) (size1 (images b)) (TOTAL_BASE_LABELS opts))
           = Inr (prediction_base_tensor st')"
    using n5 inv pb by (simp add: batch_start_def)
  show "fuse_all (SEQ_LENGTH opts) (TRAIN_WINDOW opts) (rle_windows (invocations st'))
           (zeros (length (images b)) (size1 (images b)) (TOTAL_RLE_LABELS opts))
           = Inr (prediction_rle_tensor st')"
    using n6 inv pr by (simp add: batch_start_def)
qed

lemma fused_zero_evidence_nth:
  assumes fa: "fuse_all L W (map (\<lambda>v. (inv_start v, logits v)) vs) (zeros B L C) = Inr ev"
    and fits: "\<forall>v \<in> set vs. inv_start v + W \<le> L"
    and idx: "i < B" "p < L" "c < C"
  shows "ev ! i ! p ! c =
           sum_list (map (\<lambda>v. Softmax (logits v) ! i ! (p - inv_start v) ! c) (covering W p vs))"
proof -
  have fits': "\<forall>w \<in> set (map (\<lambda>v. (inv_start v, logits v)) vs). fst w + W \<le> L"
    using fits by simp
  have "ev ! i ! p ! c =
          zeros B L C ! i ! p ! c +
          sum_list (map (\<lambda>w. Softmax (snd w) ! i ! (p - fst w) ! c)
                      (filter (\<lambda>w. fst w \<le> p \<and> p < fst w + W)
                         (map (\<lambda>v. (inv_start v, logits v)) vs)))"
    using fa fits' has_shape_zeros idx by (rule fuse_all_nth)
  also have "\<dots> = sum_list (map (\<lambda>v. Softmax (logits v) ! i ! (p - inv_start v) ! c)
                              (covering W p vs))"
    using idx by (simp add: zeros_nth filter_map comp_def covering_def)
  finally show ?thesis .
qed

lemma batch_fused_from_zeros:
  assumes run: "process_batch opts m rank total_batches b st = Inr st'"
    and len: "size1 (images b) = SEQ_LENGTH opts"
  shows "fuse_all (SEQ_LENGTH opts) (TRAIN_WINDOW opts)
           (map (\<lambda>v. (inv_start v, inv_output_base v)) (invocations st'))
           (zeros (length (images b)) (SEQ_LENGTH opts) (TOTAL_BASE_LABELS opts))
           = Inr (prediction_base_tensor st')"
    and "fuse_all (SEQ_LENGTH opts) (TRAIN_WINDOW opts)
           (map (\<lambda>v. (inv_start v, inv_output_rle v)) (invocations st'))
           (zeros (length (images b)) (SEQ_LENGTH opts) (TOTAL_RLE_LABELS opts))
           = Inr (prediction_rle_tensor st')"
  using process_batch_trace(5,6) [OF run]
  by (simp_all add: base_windows_def rle_windows_def len)

text \<open>
  C3. The evidence tensors of a batch start as zeros, and once the window loop is done
  the evidence at position \<open>p\<close> of instance \<open>i\<close>, for either head and every class, is
  the sum of the softmax outputs at \<open>p\<close> of exactly the evaluated windows whose range
  \<open>[start, start + W)\<close> contains \<open>p\<close>, the evaluated windows being those the window
  loop schedules. A position no window covers has evidence zero (the empty sum).
\<close>

theorem evidence_sums_covering_windows:
  assumes run: "process_batch opts m rank total_batches b st = Inr st'"
    and len: "size1 (images b) = SEQ_LENGTH opts"
    and idx: "i < length (images b)" "p < SEQ_LENGTH opts"
  shows "window_starts (SEQ_LENGTH opts) (TRAIN_WINDOW opts) (WINDOW_JUMP opts)
           = Inr (map inv_start (invocations st')) \<and>
         (\<forall>c < TOTAL_BASE_LABELS opts.
            prediction_base_tensor st' ! i ! p ! c =
              sum_list (map (\<lambda>v. Softmax (inv_output_base v) ! i ! (p - inv_start v) ! c)
                          (covering (TRAIN_WINDOW opts) p (invocations st')))) \<and>
         (\<forall>c < TOTAL_RLE_LABELS opts.
            prediction_rle_tensor st' ! i ! p ! c =
              sum_list (map (\<lambda>v. Softmax (inv_output_rle v) ! i ! (p - inv_start v) ! c)
                          (covering (TRAIN_WINDOW opts) p (invocations st'))))"
proof -
  note t = process_batch_trace [OF run]
  note f = batch_fused_from_zeros [OF run len]
  from t(1) fused_zero_evidence_nth [OF f(1) t(3) idx] fused_zero_evidence_nth [OF f(2) t(3) idx]
  show ?thesis by blast
qed

theorem evidence_sums_covering_windows_witness:
  "process_batch demo_opts demo_model 1 1 demo_batch demo_state = Inr demo_result \<and>
   size1 (images demo_batch) = SEQ_LENGTH demo_opts \<and>
   window_starts 6 4 2 = Inr [0, 2] \<and>
   map (\<lambda>p. map inv_start (covering 4 p (invocations demo_result))) [0, 1, 2, 3, 4, 5] =
     [[0], [0], [0, 2], [0, 2], [2], [2]] \<and>
   window_starts (SEQ_LENGTH demo_opts) (TRAIN_WINDOW demo_opts) (WINDOW_JUMP demo_opts)
     = Inr (map inv_start (invocations demo_result)) \<and>
   prediction_base_tensor demo_result ! 0 ! 2 ! 1 =
     sum_list (map (\<lambda>v. Softmax (inv_output_base v) ! 0 ! (2 - inv_start v) ! 1)
                 (covering (TRAIN_WINDOW demo_opts) 2 (invocations demo_result))) \<and>
   prediction_base_tensor demo_result ! 0 ! 2 ! 1 = 3 / 4 + 3 / 4 \<and>
   prediction_rle_tensor demo_result ! 0 ! 2 ! 2 =
     sum_list (map (\<lambda>v. Softmax (inv_output_rle v) ! 0 ! (2 - inv_start v) ! 2)
                 (covering (TRAIN_WINDOW demo_opts) 2 (invocations demo_result)))"
proof -
  have len: "size1 (images demo_batch) = SEQ_LENGTH demo_opts"
    by (simp add: demo_defs size1_def)
  have i: "0 < length (images demo_batch)" by (simp add: demo_defs)
  have p: "2 < SEQ_LENGTH demo_opts" by (simp add: demo_defs)
  have ws: "window_starts 6 4 2 = Inr [0, 2]"
    by (simp add: window_starts_def sliding_windows_def py_range_def upt_conv_Cons)
  have cov: "map (\<lambda>p. map inv_start (covering 4 p (invocations demo_result))) [0, 1, 2, 3, 4, 5] =
     [[0], [0], [0, 2], [0, 2], [2], [2]]"
    by (simp add: covering_def demo_result_def)
  have val: "prediction_base_tensor demo_result ! 0 ! 2 ! 1 = 3 / 4 + 3 / 4"
    by (simp add: demo_result_def)
  have cb: "1 < TOTAL_BASE_LABELS demo_opts" and cr: "2 < TOTAL_RLE_LABELS demo_opts"
    by (simp_all add: demo_opts_def)
  from evidence_sums_covering_windows [OF demo_run len i p] cb cr
  have "window_starts (SEQ_LENGTH demo_opts) (TRAIN_WINDOW demo_opts) (WINDOW_JUMP demo_opts)
     = Inr (map inv_start (invocations demo_result)) \<and>
   prediction_base_tensor demo_result ! 0 ! 2 ! 1 =
     sum_list (map (\<lambda>v. Softmax (inv_output_base v) ! 0 ! (2 - inv_start v) ! 1)
                 (covering (TRAIN_WINDOW demo_opts) 2 (invocations demo_result))) \<and>
   prediction_rle_tensor demo_result ! 0 ! 2 ! 2 =
     sum_list (map (\<lambda>v. Softmax (inv_output_rle v) ! 0 ! (2 - inv_start v) ! 2)
                 (covering (TRAIN_WINDOW demo_opts) 2 (invocations demo_result)))"
    by blast
  with demo_run len ws cov val show ?thesis by blast
qed

text \<open>
  C7. In every batch the model calls are threaded from an all-zero hidden state: the
  first call receives zeros, each later call receives the hidden state the call before
  it returned, and the calls are made on the scheduled windows in increasing start
  order. The hidden state left over from earlier batches has no influence: with any
  other value in its place the batch yields the same result.
\<close>

theorem hidden_reset_and_threaded:
  assumes run: "process_batch opts m rank total_batches b st = Inr st'"
  shows "threaded m (images b) (TRAIN_WINDOW opts)
           (zeros (length (images b)) (2 * GRU_LAYERS opts) (HIDDEN_SIZE opts)) (invocations st') \<and>
         window_starts (SEQ_LENGTH opts) (TRAIN_WINDOW opts) (WINDOW_JUMP opts)
           = Inr (map inv_start (invocations st')) \<and>
         sorted_wrt (<) (map inv_start (invocations st')) \<and>
         (\<forall>h. process_batch opts m rank total_batches b (st\<lparr>hidden := h\<rparr>) = Inr st')"
proof -
  note t = process_batch_trace [OF run]
  have "process_batch opts m rank total_batches b (st\<lparr>hidden := h\<rparr>) = Inr st'" for h
    using run by (simp add: process_batch_def batch_start_def)
  with t(4,1,2) show ?thesis by blast
qed

theorem hidden_reset_and_threaded_witness:
  "process_batch demo_opts demo_model 1 1 demo_batch demo_state = Inr demo_result \<and>
   map inv_hidden_in (invocations demo_result) = [[[[0], [0]]], [[[1], [1]]]] \<and>
   (threaded demo_model (images demo_batch) (TRAIN_WINDOW demo_opts)
           (zeros (length (images demo_batch)) (2 * GRU_LAYERS demo_opts) (HIDDEN_SIZE demo_opts))
           (invocations demo_result) \<and>
         window_starts (SEQ_LENGTH demo_opts) (TRAIN_WINDOW demo_opts) (WINDOW_JUMP demo_opts)
           = Inr (map inv_start (invocations demo_result)) \<and>
         sorted_wrt (<) (map inv_start (invocations demo_result)) \<and>
         (\<forall>h. process_batch demo_opts demo_model 1 1 demo_batch (demo_state\<lparr>hidden := h\<rparr>)
                = Inr demo_result))"
proof -
  have h: "map inv_hidden_in (invocations demo_result) = [[[[0], [0]]], [[[1], [1]]]]"
    by (simp add: demo_result_def)
  from demo_run h hidden_reset_and_threaded [OF demo_run] show ?thesis by blast
qed

section \<open>Fusing one window\<close>

text \<open>
  C2. For a window starting at \<open>s\<close> that fits, the loop body passes the model's logits
  of each head through the softmax, so that the class scores of every window position sum
  to one, pads the result with \<open>s\<close> rows of zeros before and \<open>L - (s + W)\<close> rows of
  zeros after to a tensor of \<open>L\<close> positions, and adds it entry by entry to the running
  evidence of that head.
\<close>

theorem window_body_fuses:
  assumes body: "window_body opts m imgs s st = Inr st'"
    and fit: "s + TRAIN_WINDOW opts \<le> SEQ_LENGTH opts"
    and sb: "has_shape B (SEQ_LENGTH opts) Cb (prediction_base_tensor st)" and Cb: "0 < Cb"
    and sr: "has_shape B (SEQ_LENGTH opts) Cr (prediction_rle_tensor st)" and Cr: "0 < Cr"
  shows "\<exists>output_base output_rle hidden'.
           m (slice1 s (s + TRAIN_WINDOW opts) imgs) (hidden st)
             = Inr (output_base, output_rle, hidden') \<and>
           fused_window (SEQ_LENGTH opts) (TRAIN_WINDOW opts) s output_base
             (prediction_base_tensor st) (prediction_base_tensor st') \<and>
           fused_window (SEQ_LENGTH opts) (TRAIN_WINDOW opts) s output_rle
             (prediction_rle_tensor st) (prediction_rle_tensor st')"
proof -
  from window_body_Inr [OF body] obtain ob orl h' where
    call: "m (slice1 s (s + TRAIN_WINDOW opts) imgs) (hidden st) = Inr (ob, orl, h')" and
    fb: "fuse (SEQ_LENGTH opts) (TRAIN_WINDOW opts) (s, ob) (prediction_base_tensor st)
           = Inr (prediction_base_tensor st')" and
    fr: "fuse (SEQ_LENGTH opts) (TRAIN_WINDOW opts) (s, orl) (prediction_rle_tensor st)
           = Inr (prediction_rle_tensor st')"
    by blast
  from call fuse_fused_window [OF fb fit sb Cb] fuse_fused_window [OF fr fit sr Cr]
  show ?thesis by blast
qed

theorem window_body_fuses_witness:
  "window_body demo_opts demo_model (images demo_batch) 0 demo_start = Inr demo_first \<and>
   0 + TRAIN_WINDOW demo_opts \<le> SEQ_LENGTH demo_opts \<and>
   has_shape 1 (SEQ_LENGTH demo_opts) 2 (prediction_base_tensor demo_start) \<and>
   has_shape 1 (SEQ_LENGTH demo_opts) 3 (prediction_rle_tensor demo_start) \<and>
   (\<exists>output_base output_rle hidden'.
           demo_model (slice1 0 (0 + TRAIN_WINDOW demo_opts) (images demo_batch)) (hidden demo_start)
             = Inr (output_base, output_rle, hidden') \<and>
           fused_window (SEQ_LENGTH demo_opts) (TRAIN_WINDOW demo_opts) 0 output_base
             (prediction_base_tensor demo_start) (prediction_base_tensor demo_first) \<and>
           fused_window (SEQ_LENGTH demo_opts) (TRAIN_WINDOW demo_opts) 0 output_rle
             (prediction_rle_tensor demo_start) (prediction_rle_tensor demo_first))"
proof -
  have fit: "0 + TRAIN_WINDOW demo_opts \<le> SEQ_LENGTH demo_opts" by (simp add: demo_opts_def)
  have sb: "has_shape 1 (SEQ_LENGTH demo_opts) 2 (prediction_base_tensor demo_start)"
    by (simp add: demo_opts_def demo_start_def has_shape_zeros)
  have sr: "has_shape 1 (SEQ_LENGTH demo_opts) 3 (prediction_rle_tensor demo_start)"
    by (simp add: demo_opts_def demo_start_def has_shape_zeros)
  have two: "0 < (2::nat)" and three: "0 < (3::nat)" by simp_all
  from window_body_fuses [OF demo_first_window fit sb two sr three] demo_first_window fit sb sr
  show ?thesis by blast
qed

section \<open>Label resolution\<close>

lemma max_scan_first_maximum:
  assumes "bi < length pre" "pre ! bi = bv"
    and "\<forall>j < length pre. pre ! j \<le> bv" "\<forall>j < bi. pre ! j < bv"
    and "max_scan xs (length pre) (bv, bi) = (v, k)"
  shows "k < length (pre @ xs) \<and> (pre @ xs) ! k = v \<and>
         (\<forall>j < length (pre @ xs). (pre @ xs) ! j \<le> v) \<and> (\<forall>j < k. (pre @ xs) ! j < v)"
  using assms
proof (induction xs arbitrary: pre bv bi)
  case Nil
  then show ?case by simp
next
  case (Cons x xs)
  show ?case
  proof (cases "bv < x")
    case True
    have "length (pre @ [x]) = Suc (length pre)" by simp
    with Cons.prems(5) True
    have run: "max_scan xs (length (pre @ [x])) (x, length pre) = (v, k)" by simp
    have a: "length pre < length (pre @ [x])" by simp
    have b: "(pre @ [x]) ! length pre = x" by simp
    have c: "\<forall>j < length (pre @ [x]). (pre @ [x]) ! j \<le> x"
      using Cons.prems(3) True by (auto simp: nth_append less_Suc_eq intro: order.trans less_imp_le)
    have d: "\<forall>j < length pre. (pre @ [x]) ! j < x"
      using Cons.prems(3) True by (auto simp: nth_append)
    from Cons.IH [OF a b c d run] show ?thesis by simp
  next
    case False
    have "length (pre @ [x]) = Suc (length pre)" by simp
    with Cons.prems(5) False
    have run: "max_scan xs (length (pre @ [x])) (bv, bi) = (v, k)" by simp
    have a: "bi < length (pre @ [x])" using Cons.prems(1) by simp
    have b: "(pre @ [x]) ! bi = bv" using Cons.prems(1,2) by (simp add: nth_append)
    have c: "\<forall>j < length (pre @ [x]). (pre @ [x]) ! j \<le> bv"
      using Cons.prems(3) False by (auto simp: nth_append less_Suc_eq)
    have d: "\<forall>j < bi. (pre @ [x]) ! j < bv"
      using Cons.prems(1,4) by (auto simp: nth_append)
    from Cons.IH [OF a b c d run] show ?thesis by simp
  qed
qed

lemma max_row_first_maximum:
  assumes "max_row row = Inr (v, k)"
  shows "k < length row \<and> row ! k = v \<and> (\<forall>j < length row. row ! j \<le> v) \<and>
         (\<forall>j < k. row ! j < v)"
proof -
  from assms obtain x xs where row: "row = x # xs" and run: "max_scan xs 1 (x, 0) = (v, k)"
    by (auto simp: max_row_def split: list.splits)
  from run have run': "max_scan xs (length [x]) (x, 0) = (v, k)" by simp
  have "k < length ([x] @ xs) \<and> ([x] @ xs) ! k = v \<and>
         (\<forall>j < length ([x] @ xs). ([x] @ xs) ! j \<le> v) \<and> (\<forall>j < k. ([x] @ xs) ! j < v)"
    by (rule max_scan_first_maximum [OF _ _ _ _ run']) simp_all
  then show ?thesis by (simp add: row)
qed

lemma collect_Inr:
  "collect rs = Inr vs \<Longrightarrow> length vs = length rs \<and> (\<forall>k < length rs. rs ! k = Inr (vs ! k))"
proof (induction rs arbitrary: vs)
  case Nil
  then show ?case by simp
next
  case (Cons r rs)
  from Cons.prems obtain v vs' where r: "r = Inr v" and c: "collect rs = Inr vs'"
    and vs: "vs = v # vs'"
    by (auto simp: and_then_eq_Inr)
  from Cons.IH [OF c] r vs show ?case by (auto simp: nth_Cons split: nat.splits)
qed

lemma torch_max_nth:
  assumes "torch_max t = Inr (values, labels)" "i < length t" "p < length (t ! i)"
  shows "max_row (t ! i ! p) = Inr (values ! i ! p, labels ! i ! p)"
proof -
  from assms(1) obtain res where
    c: "collect (map (\<lambda>inst. collect (map max_row inst)) t) = Inr res" and
    v: "values = map (map fst) res" and l: "labels = map (map snd) res"
    by (auto simp: torch_max_def and_then_eq_Inr)
  from collect_Inr [OF c] assms(2) have
    lr: "length res = length t" and ci: "collect (map max_row (t ! i)) = Inr (res ! i)"
    by auto
  from collect_Inr [OF ci] assms(3) have
    lri: "length (res ! i) = length (t ! i)" and m: "max_row (t ! i ! p) = Inr (res ! i ! p)"
    by auto
  from m lr lri assms(2,3) show ?thesis by (simp add: v l)
qed

text \<open>
  C5. The label \<open>torch.max\<close> assigns to a position is a class whose evidence is the
  maximum over the class axis, and every class with a lower id has strictly less
  evidence: among tied maxima the lowest class id is selected. The result is a function
  of the evidence tensor alone, so equal inputs give equal labels.
\<close>

theorem torch_max_lowest_class_of_maximum:
  assumes "torch_max t = Inr (values, labels)" "i < length t" "p < length (t ! i)"
  shows "labels ! i ! p < length (t ! i ! p) \<and>
         t ! i ! p ! (labels ! i ! p) = values ! i ! p \<and>
         (\<forall>c < length (t ! i ! p). t ! i ! p ! c \<le> values ! i ! p) \<and>
         (\<forall>c < labels ! i ! p. t ! i ! p ! c < values ! i ! p)"
  using torch_max_nth [OF assms] by (rule max_row_first_maximum)

theorem torch_max_lowest_class_of_maximum_witness:
  "torch_max tied_evidence = Inr ([[3 / 2, 0]], [[1, 0]]) \<and>
   [[1, 0]] ! 0 ! 0 < length (tied_evidence ! 0 ! 0) \<and>
   tied_evidence ! 0 ! 0 ! ([[1, 0]] ! 0 ! 0) = [[3 / 2, 0]] ! 0 ! 0 \<and>
   tied_evidence ! 0 ! 0 ! 2 \<le> [[3 / 2, 0]] ! 0 ! 0 \<and>
   tied_evidence ! 0 ! 0 ! 0 < [[3 / 2, 0]] ! 0 ! 0"
proof -
  have run: "torch_max tied_evidence = Inr ([[3 / 2, 0]], [[1, 0]])"
    by (simp add: tied_evidence_def torch_max_def max_row_def)
  have i: "0 < length tied_evidence" by (simp add: tied_evidence_def)
  have p: "0 < length (tied_evidence ! 0)" by (simp add: tied_evidence_def)
  have c2: "2 < length (tied_evidence ! 0 ! 0)" by (simp add: tied_evidence_def)
  have c0: "0 < [[1, 0 :: nat]] ! 0 ! 0" by simp
  from torch_max_lowest_class_of_maximum [OF run i p] c2 c0
  have "[[1, 0]] ! 0 ! 0 < length (tied_evidence ! 0 ! 0) \<and>
   tied_evidence ! 0 ! 0 ! ([[1, 0]] ! 0 ! 0) = [[3 / 2, 0]] ! 0 ! 0 \<and>
   tied_evidence ! 0 ! 0 ! 2 \<le> [[3 / 2, 0]] ! 0 ! 0 \<and>
   tied_evidence ! 0 ! 0 ! 0 < [[3 / 2, 0]] ! 0 ! 0"
    by blast
  with run show ?thesis by (rule conjI)
qed

lemma item_Inr: "item xs i = Inr x \<longleftrightarrow> i < length xs \<and> x = xs ! i"
  by (auto simp: item_def)

lemma write_predictions_rows:
  assumes "write_predictions b bl rl idxs data_file = Inr data_file'"
  shows "store_path data_file' = store_path data_file \<and>
         store_rows data_file' =
           store_rows data_file @
           map (\<lambda>i. \<lparr>row_contig = contig b ! i, row_contig_start = contig_start b ! i,
                     row_contig_end = contig_end b ! i, row_chunk_id = chunk_id b ! i,
                     row_position = position b ! i, row_base_labels = bl ! i,
                     row_rle_labels = rl ! i, row_filename = filename b ! i\<rparr>) idxs"
  using assms
proof (induction idxs arbitrary: data_file)
  case Nil
  then show ?case by simp
next
  case (Cons i idxs)
  from Cons.prems have
    "write_predictions b bl rl idxs
       (data_file\<lparr>store_rows := store_rows data_file @
          [\<lparr>row_contig = contig b ! i, row_contig_start = contig_start b ! i,
            row_contig_end = contig_end b ! i, row_chunk_id = chunk_id b ! i,
            row_position = position b ! i, row_base_labels = bl ! i,
            row_rle_labels = rl ! i, row_filename = filename b ! i\<rparr>]\<rparr>) = Inr data_file'"
    by (auto simp: and_then_eq_Inr item_Inr)
  from Cons.IH [OF this] show ?case by simp
qed

lemma covering_Nil_iff:
  "covering W p vs = [] \<longleftrightarrow> (\<forall>s \<in> set (map inv_start vs). \<not> (s \<le> p \<and> p < s + W))"
  by (auto simp: covering_def filter_empty_conv)

lemma max_row_zeros:
  assumes "max_row (replicate C 0) = Inr (v, k)"
  shows "k = 0"
proof (rule ccontr)
  assume "k \<noteq> 0"
  then have k: "0 < k" by simp
  from max_row_first_maximum [OF assms] have
    kC: "k < length (replicate C (0::real))" and
    vk: "replicate C (0::real) ! k = v" and
    lt: "\<forall>j < k. replicate C (0::real) ! j < v"
    by blast+
  from kC have "k < C" by simp
  with vk have "v = 0" by simp
  moreover from lt k have "replicate C (0::real) ! 0 < v" by blast
  with \<open>k < C\<close> k have "(0::real) < v" by simp
  ultimately show False by simp
qed

text \<open>
  C6. A position that no scheduled window covers gets class 0 from both heads, and these
  are the labels written to the output for that position.
\<close>

theorem uncovered_position_gets_class_zero:
  assumes run: "process_batch opts m rank total_batches b st = Inr st'"
    and len: "size1 (images b) = SEQ_LENGTH opts"
    and idx: "i < length (images b)" "p < SEQ_LENGTH opts"
    and ws: "window_starts (SEQ_LENGTH opts) (TRAIN_WINDOW opts) (WINDOW_JUMP opts) = Inr starts"
    and unc: "\<forall>s \<in> set starts. \<not> (s \<le> p \<and> p < s + TRAIN_WINDOW opts)"
  shows "\<exists>base_values base_labels rle_values rle_labels.
           torch_max (prediction_base_tensor st') = Inr (base_values, base_labels) \<and>
           torch_max (prediction_rle_tensor st') = Inr (rle_values, rle_labels) \<and>
           base_labels ! i ! p = 0 \<and> rle_labels ! i ! p = 0 \<and>
           row_base_labels (store_rows (prediction_data_file st') !
              (length (store_rows (prediction_data_file st)) + i)) = base_labels ! i \<and>
           row_rle_labels (store_rows (prediction_data_file st') !
              (length (store_rows (prediction_data_file st)) + i)) = rle_labels ! i"
proof -
  from run obtain starts' st1 base_values base_labels rle_values rle_labels data_file where
    fw: "for_windows (SEQ_LENGTH opts) (TRAIN_WINDOW opts) (window_body opts m (images b)) starts'
       (batch_start opts (images b) st) = Inr st1" and
    tb: "torch_max (prediction_base_tensor st1) = Inr (base_values, base_labels)" and
    tr: "torch_max (prediction_rle_tensor st1) = Inr (rle_values, rle_labels)" and
    wr: "write_predictions b base_labels rle_labels [0..<length (images b)]
       (prediction_data_file st1) = Inr data_file" and
    fin: "st' = (report_progress opts rank total_batches b
             (st1\<lparr>batch_iterator := batch_iterator st1 + 1\<rparr>))\<lparr>prediction_data_file := data_file\<rparr>"
    by (rule process_batch_Inr)
  have pb: "prediction_base_tensor st' = prediction_base_tensor st1"
    and pr: "prediction_rle_tensor st' = prediction_rle_tensor st1"
    and pf: "prediction_data_file st' = data_file"
    using fin by (simp_all add: report_progress_frame)
  have pf1: "prediction_data_file st1 = prediction_data_file st"
    using for_windows_frame [OF fw] by (simp add: batch_start_def)
  note t = process_batch_trace [OF run]
  note f = batch_fused_from_zeros [OF run len]
  note evb = fused_zero_evidence_nth [OF f(1) t(3) idx]
  note evr = fused_zero_evidence_nth [OF f(2) t(3) idx]
  from t(1) ws have "starts = map inv_start (invocations st')" by simp
  with unc have cov: "covering (TRAIN_WINDOW opts) p (invocations st') = []"
    by (simp only: covering_Nil_iff)
  have shb: "has_shape (length (images b)) (SEQ_LENGTH opts) (TOTAL_BASE_LABELS opts)
               (prediction_base_tensor st')"
    using fuse_all_has_shape [OF t(5) has_shape_zeros] len by simp
  have shr: "has_shape (length (images b)) (SEQ_LENGTH opts) (TOTAL_RLE_LABELS opts)
               (prediction_rle_tensor st')"
    using fuse_all_has_shape [OF t(6) has_shape_zeros] len by simp
  have rowb: "prediction_base_tensor st' ! i ! p = replicate (TOTAL_BASE_LABELS opts) 0"
    using evb cov has_shape_nth(3) [OF shb idx]
    by (intro replicate_eqI) (auto simp: in_set_conv_nth)
  have rowr: "prediction_rle_tensor st' ! i ! p = replicate (TOTAL_RLE_LABELS opts) 0"
    using evr cov has_shape_nth(3) [OF shr idx]
    by (intro replicate_eqI) (auto simp: in_set_conv_nth)
  have ib: "i < length (prediction_base_tensor st1)" "p < length (prediction_base_tensor st1 ! i)"
    using has_shape_nth(1,2) [OF shb] idx by (simp_all add: pb)
  have ir: "i < length (prediction_rle_tensor st1)" "p < length (prediction_rle_tensor st1 ! i)"
    using has_shape_nth(1,2) [OF shr] idx by (simp_all add: pr)
  have "base_labels ! i ! p = 0"
    using torch_max_nth [OF tb ib] rowb by (auto simp: pb dest: max_row_zeros)
  moreover have "rle_labels ! i ! p = 0"
    using torch_max_nth [OF tr ir] rowr by (auto simp: pr dest: max_row_zeros)
  moreover from write_predictions_rows [OF wr] idx(1) have
    "row_base_labels (store_rows data_file ! (length (store_rows (prediction_data_file st)) + i))
       = base_labels ! i"
    "row_rle_labels (store_rows data_file ! (length (store_rows (prediction_data_file st)) + i))
       = rle_labels ! i"
    by (simp_all add: pf1 nth_append)
  ultimately show ?thesis using tb tr by (auto simp: pb pr pf)
qed

theorem uncovered_position_gets_class_zero_witness:
  "process_batch long_opts demo_model 1 1 long_batch demo_state = Inr long_result \<and>
   size1 (images long_batch) = SEQ_LENGTH long_opts \<and>
   window_starts (SEQ_LENGTH long_opts) (TRAIN_WINDOW long_opts) (WINDOW_JUMP long_opts)
     = Inr [0, 2] \<and>
   map row_base_labels (store_rows (prediction_data_file long_result)) = [[0, 1, 1, 0, 1, 0, 0]] \<and>
   (\<exists>base_values base_labels rle_values rle_labels.
           torch_max (prediction_base_tensor long_result) = Inr (base_values, base_labels) \<and>
           torch_max (prediction_rle_tensor long_result) = Inr (rle_values, rle_labels) \<and>
           base_labels ! 0 ! 6 = 0 \<and> rle_labels ! 0 ! 6 = 0 \<and>
           row_base_labels (store_rows (prediction_data_file long_result) !
              (length (store_rows (prediction_data_file demo_state)) + 0)) = base_labels ! 0 \<and>
           row_rle_labels (store_rows (prediction_data_file long_result) !
              (length (store_rows (prediction_data_file demo_state)) + 0)) = rle_labels ! 0)"
proof -
  have len: "size1 (images long_batch) = SEQ_LENGTH long_opts"
    by (simp add: long_batch_def long_opts_def demo_defs size1_def)
  have i: "0 < length (images long_batch)" by (simp add: long_batch_def demo_defs)
  have p: "6 < SEQ_LENGTH long_opts" by (simp add: long_opts_def demo_defs)
  have ws: "window_starts (SEQ_LENGTH long_opts) (TRAIN_WINDOW long_opts) (WINDOW_JUMP long_opts)
     = Inr [0, 2]"
    by (simp add: long_opts_def demo_opts_def window_starts_def sliding_windows_def py_range_def
        upt_conv_Cons)
  have unc: "\<forall>s \<in> set [0, 2]. \<not> (s \<le> 6 \<and> 6 < s + TRAIN_WINDOW long_opts)"
    by (simp add: long_opts_def demo_opts_def)
  have rows: "map row_base_labels (store_rows (prediction_data_file long_result))
                = [[0, 1, 1, 0, 1, 0, 0]]"
    by (simp add: long_result_def)
  from uncovered_position_gets_class_zero [OF long_run len i p ws unc] long_run len ws rows
  show ?thesis by blast
qed

section \<open>A batch runs through\<close>

text \<open>
  The properties of a batch above are stated for a batch that returns. With a
  well-shaped model, images of the configured length, a positive jump and window width,
  at least one class per head and metadata for every instance, it does return.
\<close>

lemma inference_layers_has_shape:
  assumes sh: "has_shape B W C logits" and W: "0 < W" and fit: "s + W \<le> L"
  shows "has_shape B L C (inference_layers s (L - (s + W)) logits)"
proof -
  have "map length (pad_rows s (L - (s + W)) (map softmax_row inst)) = replicate L C"
    if "inst \<in> set logits" for inst
  proof -
    from sh that have li: "length inst = W" and rows: "\<forall>row \<in> set inst. length row = C"
      by (simp_all add: has_shape_def)
    from li W obtain r rs where inst: "inst = r # rs" by (cases inst) auto
    with rows have w: "size1 (map softmax_row inst) = C" by (simp add: size1_def)
    have "map length (map softmax_row inst) = replicate W C"
      using li rows by (intro replicate_eqI) auto
    then have "map length (pad_rows s (L - (s + W)) (map softmax_row inst)) =
        replicate s C @ replicate W C @ replicate (L - (s + W)) C"
      by (simp add: pad_rows_def w)
    also have "\<dots> = replicate L C"
      using fit by (simp add: replicate_add [symmetric])
    finally show ?thesis .
  qed
  then have "map (map length) (inference_layers s (L - (s + W)) logits)
      = replicate (length logits) (replicate L C)"
    by (intro replicate_eqI) (auto simp: inference_layers_def ZeroPad2d_def Softmax_def)
  moreover from sh have "length logits = B" by (simp add: has_shape_def)
  ultimately show ?thesis by (simp add: has_shape_iff)
qed

lemma fuse_succeeds:
  assumes "has_shape B L C ev" "has_shape B W C logits" "0 < W" "s + W \<le> L"
  shows "\<exists>ev'. fuse L W (s, logits) ev = Inr ev' \<and> has_shape B L C ev'"
proof -
  from inference_layers_has_shape [OF assms(2-4)] assms(1)
  have "map (map length) ev = map (map length) (inference_layers s (L - (s + W)) logits)"
    by (simp add: has_shape_iff)
  then obtain ev' where f: "fuse L W (s, logits) ev = Inr ev'"
    by (simp add: fuse_def torch_add_def)
  with fuse_has_shape [OF f assms(1)] show ?thesis by blast
qed

lemma slice1_shape:
  assumes "\<forall>inst \<in> set imgs. length inst = L" "s + W \<le> L"
  shows "length (slice1 s (s + W) imgs) = length imgs \<and>
         (\<forall>inst \<in> set (slice1 s (s + W) imgs). length inst = W)"
  using assms by (auto simp: slice1_def)

lemma window_body_succeeds:
  assumes m: "well_shaped opts (length imgs) m"
    and imgs: "\<forall>inst \<in> set imgs. length inst = SEQ_LENGTH opts"
    and W: "0 < TRAIN_WINDOW opts" and fit: "s + TRAIN_WINDOW opts \<le> SEQ_LENGTH opts"
    and sb: "has_shape (length imgs) (SEQ_LENGTH opts) (TOTAL_BASE_LABELS opts)
               (prediction_base_tensor st)"
    and sr: "has_shape (length imgs) (SEQ_LENGTH opts) (TOTAL_RLE_LABELS opts)
               (prediction_rle_tensor st)"
  shows "\<exists>st'. window_body opts m imgs s st = Inr st' \<and>
           has_shape (length imgs) (SEQ_LENGTH opts) (TOTAL_BASE_LABELS opts)
             (prediction_base_tensor st') \<and>
           has_shape (length imgs) (SEQ_LENGTH opts) (TOTAL_RLE_LABELS opts)
             (prediction_rle_tensor st')"
proof -
  from slice1_shape [OF imgs fit] m obtain ob orl h' where
    call: "m (slice1 s (s + TRAIN_WINDOW opts) imgs) (hidden st) = Inr (ob, orl, h')" and
    ob: "has_shape (length imgs) (TRAIN_WINDOW opts) (TOTAL_BASE_LABELS opts) ob" and
    orl: "has_shape (length imgs) (TRAIN_WINDOW opts) (TOTAL_RLE_LABELS opts) orl"
    unfolding well_shaped_def by blast
  from fuse_succeeds [OF sb ob W fit] obtain nb where
    fb: "fuse (SEQ_LENGTH opts) (TRAIN_WINDOW opts) (s, ob) (prediction_base_tensor st) = Inr nb"
    and nb: "has_shape (length imgs) (SEQ_LENGTH opts) (TOTAL_BASE_LABELS opts) nb" by blast
  from fuse_succeeds [OF sr orl W fit] obtain nr where
    fr: "fuse (SEQ_LENGTH opts) (TRAIN_WINDOW opts) (s, orl) (prediction_rle_tensor st) = Inr nr"
    and nr: "has_shape (length imgs) (SEQ_LENGTH opts) (TOTAL_RLE_LABELS opts) nr" by blast
  from call fb fr nb nr show ?thesis
    by (simp add: window_body_def Let_def fuse_def)
qed

lemma for_windows_succeeds:
  assumes m: "well_shaped opts (length imgs) m"
    and imgs: "\<forall>inst \<in> set imgs. length inst = SEQ_LENGTH opts"
    and W: "0 < TRAIN_WINDOW opts"
  shows "has_shape (length imgs) (SEQ_LENGTH opts) (TOTAL_BASE_LABELS opts)
               (prediction_base_tensor st) \<Longrightarrow>
         has_shape (length imgs) (SEQ_LENGTH opts) (TOTAL_RLE_LABELS opts)
               (prediction_rle_tensor st) \<Longrightarrow>
         \<exists>st'. for_windows (SEQ_LENGTH opts) (TRAIN_WINDOW opts) (window_body opts m imgs) xs st
                 = Inr st' \<and>
           has_shape (length imgs) (SEQ_LENGTH opts) (TOTAL_BASE_LABELS opts)
             (prediction_base_tensor st') \<and>
           has_shape (length imgs) (SEQ_LENGTH opts) (TOTAL_RLE_LABELS opts)
             (prediction_rle_tensor st')"
proof (induction xs arbitrary: st)
  case Nil
  then show ?case by simp
next
  case (Cons i xs)
  show ?case
  proof (cases "i + TRAIN_WINDOW opts > SEQ_LENGTH opts")
    case True
    with Cons.prems show ?thesis by simp
  next
    case False
    then have fit: "i + TRAIN_WINDOW opts \<le> SEQ_LENGTH opts" by simp
    from window_body_succeeds [OF m imgs W fit Cons.prems] obtain st1 where
      b: "window_body opts m imgs i st = Inr st1" and
      s1: "has_shape (length imgs) (SEQ_LENGTH opts) (TOTAL_BASE_LABELS opts)
             (prediction_base_tensor st1)"
          "has_shape (length imgs) (SEQ_LENGTH opts) (TOTAL_RLE_LABELS opts)
             (prediction_rle_tensor st1)" by blast
    from Cons.IH [OF s1] b False show ?thesis by simp
  qed
qed

lemma collect_succeeds:
  "\<forall>r \<in> set rs. \<exists>v. r = Inr v \<Longrightarrow> \<exists>vs. collect rs = Inr vs"
  by (induction rs) auto

lemma torch_max_succeeds:
  assumes "has_shape B N C t" "0 < C"
  shows "\<exists>res. torch_max t = Inr res"
proof -
  have row: "\<exists>v. max_row row = Inr v" if "length row = C" for row :: "real list"
    using that assms(2) by (cases row) (simp_all add: max_row_def)
  have "\<exists>v. collect (map max_row inst) = Inr v" if "inst \<in> set t" for inst
  proof (rule collect_succeeds)
    show "\<forall>r \<in> set (map max_row inst). \<exists>v. r = Inr v"
      using assms(1) that row by (auto simp: has_shape_def)
  qed
  then have "\<exists>vs. collect (map (\<lambda>inst. collect (map max_row inst)) t) = Inr vs"
    by (intro collect_succeeds) auto
  then show ?thesis by (auto simp: torch_max_def)
qed

lemma write_predictions_succeeds:
  assumes "\<forall>i \<in> set idxs. i < length (contig b) \<and> i < length (contig_start b) \<and>
             i < length (contig_end b) \<and> i < length (chunk_id b) \<and> i < length (position b) \<and>
             i < length bl \<and> i < length rl \<and> i < length (filename b)"
  shows "\<exists>data_file'. write_predictions b bl rl idxs data_file = Inr data_file'"
  using assms by (induction idxs arbitrary: data_file) (simp_all add: item_def)

lemma torch_max_length:
  assumes "torch_max t = Inr (values, labels)"
  shows "length labels = length t"
proof -
  from assms obtain res where
    c: "collect (map (\<lambda>inst. collect (map max_row inst)) t) = Inr res" and
    l: "labels = map (map snd) res"
    by (auto simp: torch_max_def and_then_eq_Inr)
  from collect_Inr [OF c] l show ?thesis by simp
qed

lemma process_batch_succeeds:
  assumes m: "well_shaped opts (length (images b)) m"
    and ne: "images b \<noteq> []"
    and imgs: "\<forall>inst \<in> set (images b). length inst = SEQ_LENGTH opts"
    and J: "0 < WINDOW_JUMP opts" and W: "0 < TRAIN_WINDOW opts"
    and Cb: "0 < TOTAL_BASE_LABELS opts" and Cr: "0 < TOTAL_RLE_LABELS opts"
    and meta: "length (images b) \<le> length (contig b)"
              "length (images b) \<le> length (contig_start b)"
              "length (images b) \<le> length (contig_end b)"
              "length (images b) \<le> length (chunk_id b)"
              "length (images b) \<le> length (position b)"
              "length (images b) \<le> length (filename b)"
  shows "\<exists>st'. process_batch opts m rank total_batches b st = Inr st'"
proof -
  from ne imgs have len: "size1 (images b) = SEQ_LENGTH opts"
    by (cases "images b") (simp_all add: size1_def)
  have s0: "has_shape (length (images b)) (SEQ_LENGTH opts) (TOTAL_BASE_LABELS opts)
              (prediction_base_tensor (batch_start opts (images b) st))"
           "has_shape (length (images b)) (SEQ_LENGTH opts) (TOTAL_RLE_LABELS opts)
              (prediction_rle_tensor (batch_start opts (images b) st))"
    by (simp_all add: batch_start_def len has_shape_zeros)
  from J obtain starts where rg: "py_range (SEQ_LENGTH opts) (WINDOW_JUMP opts) = Inr starts"
    by (simp add: py_range_def)
  from for_windows_succeeds [OF m imgs W s0] obtain st1 where
    fw: "for_windows (SEQ_LENGTH opts) (TRAIN_WINDOW opts) (window_body opts m (images b)) starts
           (batch_start opts (images b) st) = Inr st1" and
    s1: "has_shape (length (images b)) (SEQ_LENGTH opts) (TOTAL_BASE_LABELS opts)
             (prediction_base_tensor st1)"
        "has_shape (length (images b)) (SEQ_LENGTH opts) (TOTAL_RLE_LABELS opts)
             (prediction_rle_tensor st1)" by blast
  from torch_max_succeeds [OF s1(1) Cb] obtain bv bl where
    tb: "torch_max (prediction_base_tensor st1) = Inr (bv, bl)" by auto
  from torch_max_succeeds [OF s1(2) Cr] obtain rv rl where
    tr: "torch_max (prediction_rle_tensor st1) = Inr (rv, rl)" by auto
  from torch_max_length [OF tb] s1(1) have lb: "length bl = length (images b)"
    by (simp add: has_shape_def)
  from torch_max_length [OF tr] s1(2) have lr: "length rl = length (images b)"
    by (simp add: has_shape_def)
  have "\<exists>data_file'. write_predictions b bl rl [0..<length (images b)]
          (prediction_data_file (report_progress opts rank total_batches b
             (st1\<lparr>batch_iterator := batch_iterator st1 + 1\<rparr>))) = Inr data_file'"
    using meta lb lr by (intro write_predictions_succeeds) auto
  then obtain data_file' where
    wr: "write_predictions b bl rl [0..<length (images b)]
          (prediction_data_file (report_progress opts rank total_batches b
             (st1\<lparr>batch_iterator := batch_iterator st1 + 1\<rparr>))) = Inr data_file'" ..
  from rg fw tb tr wr show ?thesis
    by (simp add: process_batch_def sliding_windows_def Let_def)
qed

lemma demo_model_well_shaped: "well_shaped demo_opts 1 demo_model"
  by (auto simp: well_shaped_def demo_model_def demo_opts_def has_shape_def)

section \<open>Order of fusion\<close>

lemma tensor_eqI:
  fixes x y :: tensor3
  assumes sh: "map (map length) x = map (map length) y"
    and el: "\<And>b p c. b < length x \<Longrightarrow> p < length (x ! b) \<Longrightarrow> c < length (x ! b ! p) \<Longrightarrow>
               x ! b ! p ! c = y ! b ! p ! c"
  shows "x = y"
proof (rule nth_equalityI)
  note l = same_shape_nth [OF sh]
  show "length x = length y" by (rule l(1))
  fix b assume b: "b < length x"
  show "x ! b = y ! b"
  proof (rule nth_equalityI)
    show "length (x ! b) = length (y ! b)" using b by (rule l(2))
    fix p assume p: "p < length (x ! b)"
    show "x ! b ! p = y ! b ! p"
    proof (rule nth_equalityI)
      show "length (x ! b ! p) = length (y ! b ! p)" using b p by (rule l(3))
      fix c assume "c < length (x ! b ! p)"
      with b p show "x ! b ! p ! c = y ! b ! p ! c" by (rule el)
    qed
  qed
qed

lemma torch_add_twice:
  "and_then (torch_add ev a) (\<lambda>e. torch_add e b) = Inr z \<longleftrightarrow>
     map (map length) a = map (map length) ev \<and> map (map length) b = map (map length) ev \<and>
     map (map length) z = map (map length) ev \<and>
     (\<forall>i < length ev. \<forall>p < length (ev ! i). \<forall>c < length (ev ! i ! p).
        z ! i ! p ! c = ev ! i ! p ! c + a ! i ! p ! c + b ! i ! p ! c)"
  (is "?l \<longleftrightarrow> ?r")
proof
  assume ?l
  then obtain e where 1: "torch_add ev a = Inr e" and 2: "torch_add e b = Inr z"
    by (rule and_then_InrE)
  note s1 = torch_add_shape [OF 1] and s2 = torch_add_shape [OF 2]
  note l1 = same_shape_nth [OF s1]
  from 1 have sa: "map (map length) a = map (map length) ev" by (simp add: torch_add_Inr)
  from 2 s1 have sb: "map (map length) b = map (map length) ev" by (simp add: torch_add_Inr)
  have "z ! i ! p ! c = ev ! i ! p ! c + a ! i ! p ! c + b ! i ! p ! c"
    if "i < length ev" "p < length (ev ! i)" "c < length (ev ! i ! p)" for i p c
  proof -
    from that l1 have i: "i < length e" and p: "p < length (e ! i)" and c: "c < length (e ! i ! p)"
      by simp_all
    from torch_add_nth [OF 2 i p c] torch_add_nth [OF 1 that] show ?thesis by simp
  qed
  with sa sb s1 s2 show ?r by simp
next
  assume r: ?r
  then have sa: "map (map length) ev = map (map length) a" by simp
  then obtain e where 1: "torch_add ev a = Inr e" by (simp add: torch_add_def)
  note s1 = torch_add_shape [OF 1]
  note l1 = same_shape_nth [OF s1]
  from r s1 have "map (map length) e = map (map length) b" by simp
  then obtain z' where 2: "torch_add e b = Inr z'" by (simp add: torch_add_def)
  note s2 = torch_add_shape [OF 2]
  have "z' = z"
  proof (rule tensor_eqI)
    show "map (map length) z' = map (map length) z" using s2 s1 r by simp
    note lz = same_shape_nth [OF s2]
    fix i p c assume z: "i < length z'" "p < length (z' ! i)" "c < length (z' ! i ! p)"
    with lz have e: "i < length e" "p < length (e ! i)" "c < length (e ! i ! p)" by simp_all
    with l1 have v: "i < length ev" "p < length (ev ! i)" "c < length (ev ! i ! p)" by simp_all
    from torch_add_nth [OF 2 e] torch_add_nth [OF 1 v] r v
    show "z' ! i ! p ! c = z ! i ! p ! c" by simp
  qed
  with 1 2 show ?l by simp
qed

lemma torch_add_swap:
  "and_then (torch_add ev a) (\<lambda>e. torch_add e b) =
   and_then (torch_add ev b) (\<lambda>e. torch_add e a)"
proof (cases "and_then (torch_add ev a) (\<lambda>e. torch_add e b)")
  case (Inr z)
  then have "and_then (torch_add ev b) (\<lambda>e. torch_add e a) = Inr z"
    by (simp only: torch_add_twice) (simp add: add.assoc add.commute)
  with Inr show ?thesis by simp
next
  case (Inl e)
  have e: "e = RuntimeError"
    using Inl by (auto simp: and_then_def torch_add_def split: sum.splits if_splits)
  show ?thesis
  proof (cases "and_then (torch_add ev b) (\<lambda>e. torch_add e a)")
    case (Inr z)
    then have "and_then (torch_add ev a) (\<lambda>e. torch_add e b) = Inr z"
      by (simp only: torch_add_twice) (simp add: add.assoc add.commute)
    with Inl show ?thesis by simp
  next
    case (Inl e')
    have "e' = RuntimeError"
      using Inl by (auto simp: and_then_def torch_add_def split: sum.splits if_splits)
    with e Inl \<open>and_then (torch_add ev a) (\<lambda>e. torch_add e b) = Inl e\<close> show ?thesis by simp
  qed
qed

lemma fuse_swap:
  "and_then (fuse L W x ev) (fuse L W y) = and_then (fuse L W y ev) (fuse L W x)"
proof -
  have "fuse L W w = (\<lambda>e. torch_add e (inference_layers (fst w) (L - (fst w + W)) (snd w)))"
    for w by (rule ext) (simp add: fuse_def)
  then show ?thesis by (simp add: torch_add_swap)
qed

lemma fuse_all_fold:
  "and_then r (fuse_all L W ws) = fold (\<lambda>w r. and_then r (fuse L W w)) ws r"
proof (induction ws arbitrary: r)
  case Nil
  show ?case by (simp add: fun_eq_iff [symmetric, of "fuse_all L W []" Inr])
next
  case (Cons w ws)
  have "fuse_all L W (w # ws) = (\<lambda>ev. and_then (fuse L W w ev) (fuse_all L W ws))"
    by (rule ext) simp
  then show ?case by (simp add: Cons.IH [symmetric] and_then_assoc)
qed

text \<open>
  C4. For fixed windows with fixed logits the evidence obtained by fusing them one after
  another does not depend on the order: any two lists holding the same windows, each as
  often, give the same result (the same tensor, or an exception in both orders). Tensor
  entries are real numbers here, whose addition is associative and commutative.
\<close>

theorem fuse_all_order_invariant:
  assumes "mset ws = mset ws'"
  shows "fuse_all L W ws ev = fuse_all L W ws' ev"
proof -
  have comm: "(\<lambda>r. and_then r (fuse L W x)) \<circ> (\<lambda>r. and_then r (fuse L W y)) =
              (\<lambda>r. and_then r (fuse L W y)) \<circ> (\<lambda>r. and_then r (fuse L W x))" for x y
  proof (rule ext)
    fix r :: "py_error + tensor3"
    show "((\<lambda>r. and_then r (fuse L W x)) \<circ> (\<lambda>r. and_then r (fuse L W y))) r =
          ((\<lambda>r. and_then r (fuse L W y)) \<circ> (\<lambda>r. and_then r (fuse L W x))) r"
      by (cases r) (simp_all add: fuse_swap)
  qed
  have "fold (\<lambda>w r. and_then r (fuse L W w)) ws = fold (\<lambda>w r. and_then r (fuse L W w)) ws'"
    by (rule fold_multiset_equiv [OF comm assms])
  then have "and_then (Inr ev) (fuse_all L W ws) = and_then (Inr ev) (fuse_all L W ws')"
    by (simp add: fuse_all_fold)
  then show ?thesis by simp
qed

theorem fuse_all_order_invariant_witness:
  "mset [window_a, window_b] = mset [window_b, window_a] \<and>
   fuse_all 3 2 [window_a, window_b] (zeros 1 3 2) =
     fuse_all 3 2 [window_b, window_a] (zeros 1 3 2) \<and>
   fuse_all 3 2 [window_a, window_b] (zeros 1 3 2) =
     Inr [[[3 / 4, 1 / 4], [1, 1], [1 / 4, 3 / 4]]]"
proof -
  have m: "mset [window_a, window_b] = mset [window_b, window_a]" by simp
  have v: "fuse_all 3 2 [window_a, window_b] (zeros 1 3 2) =
     Inr [[[3 / 4, 1 / 4], [1, 1], [1 / 4, 3 / 4]]]"
    by (simp add: fuse_def window_a_def window_b_def run_defs)
  from m fuse_all_order_invariant [OF m, of 3 2 "zeros 1 3 2"] v show ?thesis by blast
qed

section \<open>Workers and their output files\<close>

lemma digit_char_inject:
  assumes "digit_char a = digit_char b" "a < 10" "b < 10"
  shows "a = b"
proof -
  have d: "distinct ''0123456789''" by simp
  have l: "length ''0123456789'' = 10" by simp
  from assms l show ?thesis
    unfolding digit_char_def by (simp only: nth_eq_iff_index_eq [OF d])
qed

lemma str_nat_nonempty: "str_nat n \<noteq> []"
  by (subst str_nat.simps) simp

lemma str_nat_inject: "str_nat n = str_nat m \<Longrightarrow> n = m"
proof (induction n arbitrary: m rule: str_nat.induct)
  case (1 n)
  show ?case
  proof (cases "10 \<le> n")
    case n: True
    show ?thesis
    proof (cases "10 \<le> m")
      case m: True
      from "1.prems" n m have
        "str_nat (n div 10) @ [digit_char (n mod 10)] = str_nat (m div 10) @ [digit_char (m mod 10)]"
        by (simp add: str_nat.simps [of n] str_nat.simps [of m])
      then have hi: "str_nat (n div 10) = str_nat (m div 10)"
        and lo: "digit_char (n mod 10) = digit_char (m mod 10)" by simp_all
      from "1.IH" [OF n hi] have "n div 10 = m div 10" .
      moreover from lo have "n mod 10 = m mod 10" by (rule digit_char_inject) simp_all
      ultimately show ?thesis by (metis div_mult_mod_eq)
    next
      case m: False
      from "1.prems" n m have "str_nat (n div 10) @ [digit_char (n mod 10)] = [digit_char m]"
        by (simp add: str_nat.simps [of n] str_nat.simps [of m])
      then have "str_nat (n div 10) = []" by simp
      with str_nat_nonempty show ?thesis by blast
    qed
  next
    case n: False
    show ?thesis
    proof (cases "10 \<le> m")
      case m: True
      from "1.prems" n m have "[digit_char n] = str_nat (m div 10) @ [digit_char (m mod 10)]"
        by (simp add: str_nat.simps [of n] str_nat.simps [of m])
      then have "str_nat (m div 10) = []" by simp
      with str_nat_nonempty show ?thesis by blast
    next
      case m: False
      from "1.prems" n m have "digit_char n = digit_char m"
        by (simp add: str_nat.simps [of n] str_nat.simps [of m])
      then show ?thesis using n m by (intro digit_char_inject) simp_all
    qed
  qed
qed

lemma str_of_rank_inject: "str (int r) = str (int r') \<Longrightarrow> r = r'"
  by (simp add: str_def str_nat_inject)

lemma output_path_inject:
  assumes "output_filename @ ''_'' @ str (int r) @ ''.hdf'' =
           output_filename @ ''_'' @ str (int r') @ ''.hdf''"
  shows "r = r'"
proof -
  from assms have "str (int r) @ ''.hdf'' = str (int r') @ ''.hdf''" by simp
  then have "str (int r) = str (int r')" by simp
  then show ?thesis by (rule str_of_rank_inject)
qed

lemma process_batch_file:
  assumes "process_batch opts m rank total_batches b st = Inr st'"
  shows "store_path (prediction_data_file st') = store_path (prediction_data_file st) \<and>
         cuda_device st' = cuda_device st"
proof -
  from assms obtain starts st1 base_values base_labels rle_values rle_labels data_file where
    fw: "for_windows (SEQ_LENGTH opts) (TRAIN_WINDOW opts) (window_body opts m (images b)) starts
       (batch_start opts (images b) st) = Inr st1" and
    "torch_max (prediction_base_tensor st1) = Inr (base_values, base_labels)" and
    "torch_max (prediction_rle_tensor st1) = Inr (rle_values, rle_labels)" and
    wr: "write_predictions b base_labels rle_labels [0..<length (images b)]
       (prediction_data_file st1) = Inr data_file" and
    fin: "st' = (report_progress opts rank total_batches b
             (st1\<lparr>batch_iterator := batch_iterator st1 + 1\<rparr>))\<lparr>prediction_data_file := data_file\<rparr>"
    by (rule process_batch_Inr)
  from for_windows_frame [OF fw] have
    "prediction_data_file st1 = prediction_data_file st" "cuda_device st1 = cuda_device st"
    by (simp_all add: batch_start_def)
  with write_predictions_rows [OF wr] fin show ?thesis
    by (simp add: report_progress_frame)
qed

lemma for_batches_file:
  "for_batches opts m rank total_batches bs st = Inr st' \<Longrightarrow>
   store_path (prediction_data_file st') = store_path (prediction_data_file st) \<and>
   cuda_device st' = cuda_device st"
proof (induction bs arbitrary: st)
  case Nil
  then show ?case by simp
next
  case (Cons b bs)
  from Cons.prems obtain st1 where
    one: "process_batch opts m rank total_batches b st = Inr st1" and
    rest: "for_batches opts m rank total_batches bs st1 = Inr st'"
    by (auto simp: and_then_eq_Inr)
  from Cons.IH [OF rest] process_batch_file [OF one] show ?case by simp
qed

lemma predict_file:
  assumes "predict opts num_threads load_simple_model test_loader
             test_file output_filename model_path batch_size num_workers rank device_id = Inr st'"
  shows "store_path (prediction_data_file st') = output_filename @ ''_'' @ str rank @ ''.hdf'' \<and>
         cuda_device st' = device_id"
  using for_batches_file [OF assms [unfolded predict_def Let_def]] by simp

text \<open>
  C8. The worker of rank \<open>r\<close> runs \<open>predict\<close> on \<open>file_chunks[r]\<close> with device
  \<open>devices[r]\<close> and rank \<open>r\<close>; whatever state it returns has its output file at
  \<open>output_filepath + "_" + str(r) + ".hdf"\<close> and that device; and the output path of any
  other rank is a different path.
\<close>

theorem worker_shard_device_and_output_path:
  assumes "rank < total_callers" "total_callers \<le> length file_chunks"
    and "total_callers \<le> length devices"
  shows "predict_gpu opts num_threads load_simple_model test_loader
           file_chunks output_filepath model_path batch_size total_callers devices num_workers ! rank
         = predict opts num_threads load_simple_model test_loader
             (file_chunks ! rank) output_filepath model_path batch_size num_workers
             (int rank) (devices ! rank) \<and>
         (\<forall>st'. predict_gpu opts num_threads load_simple_model test_loader
                  file_chunks output_filepath model_path batch_size total_callers devices
                  num_workers ! rank = Inr st' \<longrightarrow>
                store_path (prediction_data_file st')
                  = output_filepath @ ''_'' @ str (int rank) @ ''.hdf'' \<and>
                cuda_device st' = devices ! rank) \<and>
         (\<forall>rank'. rank' \<noteq> rank \<longrightarrow>
                output_filepath @ ''_'' @ str (int rank') @ ''.hdf''
                  \<noteq> output_filepath @ ''_'' @ str (int rank) @ ''.hdf'')"
proof -
  have run: "predict_gpu opts num_threads load_simple_model test_loader
           file_chunks output_filepath model_path batch_size total_callers devices num_workers ! rank
         = predict opts num_threads load_simple_model test_loader
             (file_chunks ! rank) output_filepath model_path batch_size num_workers
             (int rank) (devices ! rank)"
    using assms by (simp add: predict_gpu_def setup_worker_def item_def)
  moreover have "store_path (prediction_data_file st')
                  = output_filepath @ ''_'' @ str (int rank) @ ''.hdf'' \<and>
                cuda_device st' = devices ! rank"
    if "predict_gpu opts num_threads load_simple_model test_loader
                  file_chunks output_filepath model_path batch_size total_callers devices
                  num_workers ! rank = Inr st'" for st'
    using that unfolding run by (rule predict_file)
  moreover have "output_filepath @ ''_'' @ str (int rank') @ ''.hdf''
                  \<noteq> output_filepath @ ''_'' @ str (int rank) @ ''.hdf''"
    if "rank' \<noteq> rank" for rank'
    using that output_path_inject by blast
  ultimately show ?thesis by blast
qed

lemma worker_one_run:
  "\<exists>st'. predict demo_opts 4 (\<lambda>path. demo_model) (\<lambda>test_file batch_size workers. [demo_batch])
       ''shard_1'' ''out'' ''model.pkl'' 1 0 1 1 = Inr st'"
  by (simp add: predict_def demo_defs run_defs str_def str_nat.simps digit_char_def)

theorem worker_shard_device_and_output_path_witness:
  "predict_gpu demo_opts 4 (\<lambda>path. demo_model) (\<lambda>test_file batch_size workers. [demo_batch])
           [''shard_0'', ''shard_1''] ''out'' ''model.pkl'' 1 2 [0, 1] 0 ! 1
         = predict demo_opts 4 (\<lambda>path. demo_model) (\<lambda>test_file batch_size workers. [demo_batch])
             ([''shard_0'', ''shard_1''] ! 1) ''out'' ''model.pkl'' 1 0
             (int 1) ([0, 1] ! 1) \<and>
   (\<exists>st'. predict_gpu demo_opts 4 (\<lambda>path. demo_model)
                  (\<lambda>test_file batch_size workers. [demo_batch])
                  [''shard_0'', ''shard_1''] ''out'' ''model.pkl'' 1 2 [0, 1] 0 ! 1 = Inr st' \<and>
          store_path (prediction_data_file st') = ''out_1.hdf'' \<and> cuda_device st' = 1) \<and>
   ''out'' @ ''_'' @ str (int 0) @ ''.hdf'' \<noteq> ''out'' @ ''_'' @ str (int 1) @ ''.hdf''"
proof -
  have r: "(1::nat) < 2" by simp
  have f: "2 \<le> length [''shard_0'', ''shard_1'']" by simp
  have d: "2 \<le> length [0, 1 :: int]" by simp
  have n: "''out'' @ ''_'' @ str (int 1) @ ''.hdf'' = ''out_1.hdf''"
    by (simp add: str_def str_nat.simps digit_char_def)
  have z: "(0::nat) \<noteq> 1" by simp
  note t = worker_shard_device_and_output_path [OF r f d, of demo_opts 4 "\<lambda>path. demo_model"
      "\<lambda>test_file batch_size workers. [demo_batch]" "''out''" "''model.pkl''" 1 0]
  from t have run: "predict_gpu demo_opts 4 (\<lambda>path. demo_model)
           (\<lambda>test_file batch_size workers. [demo_batch])
           [''shard_0'', ''shard_1''] ''out'' ''model.pkl'' 1 2 [0, 1] 0 ! 1
         = predict demo_opts 4 (\<lambda>path. demo_model) (\<lambda>test_file batch_size workers. [demo_batch])
             ([''shard_0'', ''shard_1''] ! 1) ''out'' ''model.pkl'' 1 0
             (int 1) ([0, 1] ! 1)" by blast
  from worker_one_run obtain st' where
    st: "predict demo_opts 4 (\<lambda>path. demo_model) (\<lambda>test_file batch_size workers. [demo_batch])
           ([''shard_0'', ''shard_1''] ! 1) ''out'' ''model.pkl'' 1 0 (int 1) ([0, 1] ! 1) = Inr st'"
    by auto
  from t run st have "store_path (prediction_data_file st') = ''out'' @ ''_'' @ str (int 1) @ ''.hdf''
      \<and> cuda_device st' = [0, 1] ! 1" by simp
  with n have "store_path (prediction_data_file st') = ''out_1.hdf'' \<and> cuda_device st' = 1"
    by simp
  with run st have ex: "\<exists>st'. predict_gpu demo_opts 4 (\<lambda>path. demo_model)
                  (\<lambda>test_file batch_size workers. [demo_batch])
                  [''shard_0'', ''shard_1''] ''out'' ''model.pkl'' 1 2 [0, 1] 0 ! 1 = Inr st' \<and>
          store_path (prediction_data_file st') = ''out_1.hdf'' \<and> cuda_device st' = 1"
    by auto
  from t z have ne: "''out'' @ ''_'' @ str (int 0) @ ''.hdf'' \<noteq> ''out'' @ ''_'' @ str (int 1) @ ''.hdf''"
    by blast
  from run ex ne show ?thesis by blast
qed

section \<open>The progress line\<close>

lemma report_progress_other_rank:
  "rank \<noteq> 0 \<Longrightarrow> report_progress opts rank total_batches b st = st"
  by (simp add: report_progress_def)

text \<open>
  C9. A batch that took two seconds with 3600 batches remaining gives an estimate of
  7200 seconds, that is two hours. After the hours are taken, line 167 subtracts
  \<open>eta / 3600\<close> (the hours as a fraction) instead of the seconds those hours amount to,
  so the minutes and seconds are those of 7198 seconds: the line reads 2 HOURS 119 MINS
  58 SECS, which adds up to 14398 seconds.
\<close>

theorem progress_line_two_hours:
  "eta_parts ((12 - 10) * of_int (int 3601 - int 1)) = (2, 119, 58) \<and>
   progress_line demo_opts ((12 - 10) * of_int (int 3601 - int 1)) 1 3601 =
     ''INFO: BATCHES DONE: 1/3601. ESTIMATED TIME LEFT: 2 HOURS 119 MINS 58 SECS.'' @ [CHR 0x0A]"
  by (simp add: progress_line_def eta_parts_def py_int_def Let_def demo_opts_def str_def
      str_nat.simps digit_char_def)

section \<open>The item returned by the dataset\<close>

lemma length_remap_at: "length (remap_at i lb) = length lb"
  by (simp add: remap_at_def)

lemma remap_at_nth_other: "j \<noteq> i \<Longrightarrow> remap_at i lb ! j = lb ! j"
  by (simp add: remap_at_def)

lemma remap_at_nth_same:
  "i < length lb \<Longrightarrow>
   remap_at i lb ! i =
     (if lb ! i = 65 then 1 else if lb ! i = 67 then 2 else if lb ! i = 71 then 3
      else if lb ! i = 84 then 4 else if lb ! i = 95 then 0 else if lb ! i = 78 then 0
      else lb ! i)"
  by (simp add: remap_at_def)

lemma remap_loop_length: "length (remap_loop idxs lb) = length lb"
  by (induction idxs arbitrary: lb) (simp_all add: length_remap_at)

lemma remap_loop_untouched:
  "j \<notin> set idxs \<Longrightarrow> remap_loop idxs lb ! j = lb ! j"
  by (induction idxs arbitrary: lb) (auto simp: remap_at_nth_other)

lemma remap_loop_upt_nth:
  "n \<le> length lb \<Longrightarrow> k \<le> j \<Longrightarrow> j < n \<Longrightarrow>
   remap_loop [k..<n] lb ! j =
     (if lb ! j = 65 then 1 else if lb ! j = 67 then 2 else if lb ! j = 71 then 3
      else if lb ! j = 84 then 4 else if lb ! j = 95 then 0 else if lb ! j = 78 then 0
      else lb ! j)"
proof (induction "n - k" arbitrary: k lb)
  case 0
  then show ?case by simp
next
  case (Suc d)
  from Suc.prems Suc.hyps have kn: "k < n" by simp
  then have unfold: "[k..<n] = k # [Suc k..<n]" by (simp add: upt_conv_Cons)
  show ?case
  proof (cases "j = k")
    case True
    have "remap_loop [k..<n] lb ! j = remap_loop [Suc k..<n] (remap_at k lb) ! k"
      using unfold True by simp
    also have "\<dots> = remap_at k lb ! k"
      by (rule remap_loop_untouched) simp
    finally show ?thesis
      using True kn Suc.prems(1) by (simp add: remap_at_nth_same)
  next
    case False
    with Suc.prems have kj: "Suc k \<le> j" by simp
    have d: "d = n - Suc k" using Suc.hyps by simp
    have len: "n \<le> length (remap_at k lb)" using Suc.prems(1) by (simp add: length_remap_at)
    have "remap_loop [k..<n] lb ! j = remap_loop [Suc k..<n] (remap_at k lb) ! j"
      using unfold by simp
    also note Suc.hyps(1) [OF d len kj Suc.prems(3)]
    finally show ?thesis
      using False by (simp add: remap_at_nth_other)
  qed
qed

text \<open>
  C10. Every item \<open>__getitem__\<close> returns carries the image and the run-length labels
  of the file as they are, and a base-label vector of the same length in which each
  entry is the file's entry remapped: 65 to 1, 67 to 2, 71 to 3, 84 to 4, 95 and 78
  to 0, and any other code unchanged.
\<close>

theorem getitem_remaps_base_labels:
  assumes "getitem file_info fs index = Inr (img, lb, lrl)"
  shows "\<exists>path hdf5. py_index file_info index = Inr path \<and> fs path = Some hdf5 \<and>
           img = image hdf5 \<and> lrl = label_run_length hdf5 \<and>
           length lb = length (label_base hdf5) \<and>
           (\<forall>j < length lb.
              lb ! j =
                (if label_base hdf5 ! j = 65 then 1
                 else if label_base hdf5 ! j = 67 then 2
                 else if label_base hdf5 ! j = 71 then 3
                 else if label_base hdf5 ! j = 84 then 4
                 else if label_base hdf5 ! j = 95 then 0
                 else if label_base hdf5 ! j = 78 then 0
                 else label_base hdf5 ! j))"
proof -
  from assms obtain path hdf5 where
    p: "py_index file_info index = Inr path" and f: "fs path = Some hdf5" and
    r: "img = image hdf5" "lrl = label_run_length hdf5"
       "lb = remap_loop [0..<length (label_base hdf5)] (label_base hdf5)"
    by (auto simp: getitem_def split: sum.splits option.splits)
  have len: "length lb = length (label_base hdf5)"
    using r(3) by (simp add: remap_loop_length)
  have "\<forall>j < length lb.
          lb ! j =
            (if label_base hdf5 ! j = 65 then 1
             else if label_base hdf5 ! j = 67 then 2
             else if label_base hdf5 ! j = 71 then 3
             else if label_base hdf5 ! j = 84 then 4
             else if label_base hdf5 ! j = 95 then 0
             else if label_base hdf5 ! j = 78 then 0
             else label_base hdf5 ! j)"
    using len r(3) remap_loop_upt_nth [of "length (label_base hdf5)" "label_base hdf5" 0]
    by simp
  with p f r(1,2) len show ?thesis by blast
qed

theorem getitem_remaps_base_labels_witness:
  "getitem [''chunk_0.h5''] [''chunk_0.h5'' \<mapsto> \<lparr>image = (), label_base = [65, 67, 71, 84, 95, 78, 3],
                                    label_run_length = [1, 1, 2, 1, 0, 0, 5]\<rparr>] 0
     = Inr ((), [1, 2, 3, 4, 0, 0, 3], [1, 1, 2, 1, 0, 0, 5]) \<and>
   (\<exists>path hdf5. py_index [''chunk_0.h5''] 0 = Inr path \<and>
      [''chunk_0.h5'' \<mapsto> \<lparr>image = (), label_base = [65, 67, 71, 84, 95, 78, 3],
                        label_run_length = [1, 1, 2, 1, 0, 0, 5]\<rparr>] path = Some hdf5 \<and>
      length [1, 2, 3, 4, 0, 0, 3 :: int] = length (label_base hdf5))"
proof -
  have run: "getitem [''chunk_0.h5''] [''chunk_0.h5'' \<mapsto> \<lparr>image = (), label_base = [65, 67, 71, 84, 95, 78, 3],
                                    label_run_length = [1, 1, 2, 1, 0, 0, 5]\<rparr>] 0
     = Inr ((), [1, 2, 3, 4, 0, 0, 3], [1, 1, 2, 1, 0, 0, 5])"
    by (simp add: getitem_def py_index_def remap_at_def upt_conv_Cons)
  from getitem_remaps_base_labels [OF run] run show ?thesis by blast
qed

end
